theory Spec2Isabelle
  imports Main "HOL-Library.Sublist"
begin

section \<open>The rendering coordinator of \<open>src/vs/editor/browser/view.ts\<close>\<close>

subsection \<open>Data\<close>

text \<open>
  A \<open>CodeWindow\<close> and the \<open>IDisposable\<close> returned by the windowing primitive are
  identified by numbers. Exceptions are values: \<open>BugIndicatingError\<close> is the one the
  View throws itself; \<open>ExternalError n\<close> stands for whatever the closure of some
  rendering throws, \<open>PartError p\<close> for what the ViewPart at position \<open>p\<close> throws and
  \<open>TextError\<close> for what the text subsystem throws.
\<close>

type_synonym window = nat
type_synonym handle = nat

datatype error = BugIndicatingError | ExternalError nat | PartError nat | TextError

datatype phase = PrepareRenderText | RenderText | PrepareRender | Render

text \<open>
  \<open>ICoordinatedRendering\<close>: an object with a \<open>window\<close> and four closures. The array
  operations of the coordinator (\<open>indexOf\<close>) compare objects by identity, which is
  \<open>renderingId\<close> here; \<open>owner\<close> is the object the four closures close over (the View
  that built the rendering). What the closures do is given separately, by a
  \<open>callbacks\<close> record applied to the rendering.
\<close>

record rendering =
  renderingId :: nat
  window :: window
  owner :: nat

text \<open>
  A closure of a rendering is collaborator code. It runs on the rest of the program's
  state (the environment \<open>'e\<close>), may call the two entry points of the coordinator while
  it runs, and either returns or throws.
\<close>

datatype coordinatorCall = CallSchedule rendering | CallDispose rendering

record ('e, 'a) outcome =
  envAfter :: 'e
  coordinatorCalls :: "coordinatorCall list"
  returned :: "error + 'a"

record ('e, 'd) callbacks =
  cb_prepareRenderText :: "rendering \<Rightarrow> 'e \<Rightarrow> ('e, unit) outcome"
  cb_renderText :: "rendering \<Rightarrow> 'e \<Rightarrow> ('e, 'd option) outcome"
  cb_prepareRender :: "rendering \<Rightarrow> 'd \<Rightarrow> 'e \<Rightarrow> ('e, unit) outcome"
  cb_render :: "rendering \<Rightarrow> 'd \<Rightarrow> 'e \<Rightarrow> ('e, unit) outcome"

text \<open>
  The log of what happened, in order: a call of the coordinator to a closure of a
  rendering (with the data passed, for the last two phases), and the calls made to the
  coordinator. The log is instrumentation: no function reads it.
\<close>

datatype 'd event =
  PhaseCall phase rendering "'d option"
  | ScheduleCall rendering
  | DisposeCall rendering

text \<open>
  \<open>EditorRenderingCoordinator\<close>: the array \<open>_coordinatedRenderings\<close>, the map
  \<open>_animationFrameRunners\<close> (a JavaScript \<open>Map\<close> iterates in insertion order, so an
  association list), and around it the process: the callbacks requested from the
  windowing primitive and not yet run or cancelled, the error sink behind
  \<open>onUnexpectedError\<close>, and the environment of the closures.
\<close>

record ('e, 'd) coordinator =
  coordinatedRenderings :: "rendering list"
  animationFrameRunners :: "(window \<times> handle) list"
  requestedFrames :: "(handle \<times> window) list"
  nextHandle :: handle
  unexpectedErrors :: "error list"
  trace :: "'d event list"
  env :: 'e

subsection \<open>Scheduling and cancelling\<close>

text \<open>
  Modelled from the spec: \<open>dom.runAtThisOrScheduleAtNextAnimationFrame\<close> is not among
  the sources. The windowing primitive "supplies run a callback at or before next paint
  for window W and cancel a previously requested callback": a request adds an entry to
  \<open>requestedFrames\<close> under a fresh handle, disposing the handle removes the entry.
\<close>

definition requestFrame ::
  "window \<Rightarrow> ('e, 'd) coordinator \<Rightarrow> handle \<times> ('e, 'd) coordinator" where
  "requestFrame w s =
     (nextHandle s,
      s\<lparr>requestedFrames := requestedFrames s @ [(nextHandle s, w)],
        nextHandle := Suc (nextHandle s)\<rparr>)"

definition cancelFrame :: "handle \<Rightarrow> ('e, 'd) coordinator \<Rightarrow> ('e, 'd) coordinator" where
  "cancelFrame h s = s\<lparr>requestedFrames := filter (\<lambda>p. fst p \<noteq> h) (requestedFrames s)\<rparr>"

text \<open>\<open>EditorRenderingCoordinator._scheduleRender(window)\<close>.\<close>

definition coordinator_scheduleRender ::
  "window \<Rightarrow> ('e, 'd) coordinator \<Rightarrow> ('e, 'd) coordinator" where
  "coordinator_scheduleRender w s =
     (if w \<in> set (map fst (animationFrameRunners s)) then s
      else (let (h, s1) = requestFrame w s
            in s1\<lparr>animationFrameRunners := animationFrameRunners s1 @ [(w, h)]\<rparr>))"

text \<open>
  \<open>scheduleCoordinatedRendering(rendering)\<close>. The \<open>IDisposable\<close> it returns is
  determined by the rendering, so it is not a value of the model: disposing it is
  \<open>disposeRendering\<close> of the same rendering.
\<close>

definition scheduleCoordinatedRendering ::
  "rendering \<Rightarrow> ('e, 'd) coordinator \<Rightarrow> ('e, 'd) coordinator" where
  "scheduleCoordinatedRendering r s =
     coordinator_scheduleRender (window r)
       (s\<lparr>coordinatedRenderings := coordinatedRenderings s @ [r],
          trace := trace s @ [ScheduleCall r]\<rparr>)"

text \<open>
  The \<open>dispose\<close> of the returned handle: \<open>indexOf\<close>, \<open>splice(renderingIndex, 1)\<close>
  (the first occurrence goes), and when the array is empty every runner is disposed and
  the map cleared.
\<close>

definition disposeRendering ::
  "rendering \<Rightarrow> ('e, 'd) coordinator \<Rightarrow> ('e, 'd) coordinator" where
  "disposeRendering r s =
     (let s0 = s\<lparr>trace := trace s @ [DisposeCall r]\<rparr>
      in if r \<notin> set (coordinatedRenderings s0) then s0
         else (let s1 = s0\<lparr>coordinatedRenderings := remove1 r (coordinatedRenderings s0)\<rparr>
               in if coordinatedRenderings s1 = []
                  then (foldl (\<lambda>t p. cancelFrame (snd p) t) s1 (animationFrameRunners s1))
                         \<lparr>animationFrameRunners := []\<rparr>
                  else s1))"

fun performCall ::
  "coordinatorCall \<Rightarrow> ('e, 'd) coordinator \<Rightarrow> ('e, 'd) coordinator" where
  "performCall (CallSchedule r) s = scheduleCoordinatedRendering r s"
| "performCall (CallDispose r) s = disposeRendering r s"

definition coordinatorCalls_run ::
  "coordinatorCall list \<Rightarrow> ('e, 'd) coordinator \<Rightarrow> ('e, 'd) coordinator" where
  "coordinatorCalls_run cs s = foldl (\<lambda>t c. performCall c t) s cs"

subsection \<open>The frame callback\<close>

text \<open>
  \<open>safeInvokeNoArg(func)\<close>: \<open>try { return func(); } catch (e) { onUnexpectedError(e);
  return null; }\<close>. The function runs on the environment, its calls to the coordinator
  take effect, and a throw becomes a report to the sink and the result \<open>None\<close>.
\<close>

definition safeInvokeNoArg ::
  "('e \<Rightarrow> ('e, 'a) outcome) \<Rightarrow> ('e, 'd) coordinator \<Rightarrow> 'a option \<times> ('e, 'd) coordinator" where
  "safeInvokeNoArg func s =
     (let out = func (env s);
          s1 = coordinatorCalls_run (coordinatorCalls out) (s\<lparr>env := envAfter out\<rparr>)
      in case returned out of
           Inr v \<Rightarrow> (Some v, s1)
         | Inl e \<Rightarrow> (None, s1\<lparr>unexpectedErrors := unexpectedErrors s1 @ [e]\<rparr>))"

definition logCall ::
  "phase \<Rightarrow> rendering \<Rightarrow> 'd option \<Rightarrow> ('e, 'd) coordinator \<Rightarrow> ('e, 'd) coordinator" where
  "logCall p r a s = s\<lparr>trace := trace s @ [PhaseCall p r a]\<rparr>"

text \<open>The four loops of \<open>_onRenderScheduled\<close>, one per phase.\<close>

primrec prepareRenderTextLoop ::
  "('e, 'd) callbacks \<Rightarrow> rendering list \<Rightarrow> ('e, 'd) coordinator \<Rightarrow> ('e, 'd) coordinator" where
  "prepareRenderTextLoop cbs [] s = s"
| "prepareRenderTextLoop cbs (r # rs) s =
     prepareRenderTextLoop cbs rs
       (snd (safeInvokeNoArg (cb_prepareRenderText cbs r) (logCall PrepareRenderText r None s)))"

text \<open>
  \<open>datas[i] = safeInvokeNoArg(() => rendering.renderText())\<close>: \<open>null\<close> when the closure
  threw and when it returned \<open>null\<close>.
\<close>

primrec renderTextLoop ::
  "('e, 'd) callbacks \<Rightarrow> rendering list \<Rightarrow> ('e, 'd) coordinator
     \<Rightarrow> 'd option list \<times> ('e, 'd) coordinator" where
  "renderTextLoop cbs [] s = ([], s)"
| "renderTextLoop cbs (r # rs) s =
     (let (res, s1) = safeInvokeNoArg (cb_renderText cbs r) (logCall RenderText r None s);
          (datas, s2) = renderTextLoop cbs rs s1
      in ((case res of None \<Rightarrow> None | Some d \<Rightarrow> d) # datas, s2))"

text \<open>
  The last two loops run over the indices of \<open>coordinatedRenderings\<close> and read
  \<open>datas[i]\<close>; both arrays have the same length, so the loops run over the pairs.
  \<open>if (!data) continue\<close> skips a rendering whose data is \<open>null\<close>.
\<close>

primrec prepareRenderLoop ::
  "('e, 'd) callbacks \<Rightarrow> (rendering \<times> 'd option) list \<Rightarrow> ('e, 'd) coordinator
     \<Rightarrow> ('e, 'd) coordinator" where
  "prepareRenderLoop cbs [] s = s"
| "prepareRenderLoop cbs (p # ps) s =
     (case snd p of
        None \<Rightarrow> prepareRenderLoop cbs ps s
      | Some d \<Rightarrow>
          prepareRenderLoop cbs ps
            (snd (safeInvokeNoArg (cb_prepareRender cbs (fst p) d)
                    (logCall PrepareRender (fst p) (Some d) s))))"

primrec renderLoop ::
  "('e, 'd) callbacks \<Rightarrow> (rendering \<times> 'd option) list \<Rightarrow> ('e, 'd) coordinator
     \<Rightarrow> ('e, 'd) coordinator" where
  "renderLoop cbs [] s = s"
| "renderLoop cbs (p # ps) s =
     (case snd p of
        None \<Rightarrow> renderLoop cbs ps s
      | Some d \<Rightarrow>
          renderLoop cbs ps
            (snd (safeInvokeNoArg (cb_render cbs (fst p) d)
                    (logCall Render (fst p) (Some d) s))))"

text \<open>
  \<open>_onRenderScheduled()\<close>: the array is copied and replaced by an empty one, then the
  four loops run over the copy.
\<close>

definition onRenderScheduled ::
  "('e, 'd) callbacks \<Rightarrow> ('e, 'd) coordinator \<Rightarrow> ('e, 'd) coordinator" where
  "onRenderScheduled cbs s =
     (let rs = coordinatedRenderings s;
          s0 = s\<lparr>coordinatedRenderings := []\<rparr>;
          s1 = prepareRenderTextLoop cbs rs s0;
          (datas, s2) = renderTextLoop cbs rs s1;
          s3 = prepareRenderLoop cbs (zip rs datas) s2
      in renderLoop cbs (zip rs datas) s3)"

text \<open>The array \<open>datas\<close> of a run of \<open>_onRenderScheduled\<close> (a local variable there).\<close>

definition frameDatas :: "('e, 'd) callbacks \<Rightarrow> ('e, 'd) coordinator \<Rightarrow> 'd option list" where
  "frameDatas cbs s =
     fst (renderTextLoop cbs (coordinatedRenderings s)
            (prepareRenderTextLoop cbs (coordinatedRenderings s) (s\<lparr>coordinatedRenderings := []\<rparr>)))"

text \<open>
  The \<open>runner\<close> closure of \<open>_scheduleRender(window)\<close>, and the windowing primitive
  running the callback requested under handle \<open>h\<close>: the request is no longer
  outstanding once its callback runs.
\<close>

definition runner ::
  "window \<Rightarrow> ('e, 'd) callbacks \<Rightarrow> ('e, 'd) coordinator \<Rightarrow> ('e, 'd) coordinator" where
  "runner w cbs s =
     onRenderScheduled cbs
       (s\<lparr>animationFrameRunners := filter (\<lambda>p. fst p \<noteq> w) (animationFrameRunners s)\<rparr>)"

definition fireFrame ::
  "('e, 'd) callbacks \<Rightarrow> handle \<Rightarrow> ('e, 'd) coordinator \<Rightarrow> ('e, 'd) coordinator" where
  "fireFrame cbs h s =
     (case map_of (requestedFrames s) h of
        None \<Rightarrow> s
      | Some w \<Rightarrow> runner w cbs (cancelFrame h s))"

text \<open>The calls to closures in a log, in order.\<close>

fun phaseCalls :: "'d event list \<Rightarrow> (phase \<times> rendering \<times> 'd option) list" where
  "phaseCalls [] = []"
| "phaseCalls (PhaseCall p r a # t) = (p, r, a) # phaseCalls t"
| "phaseCalls (ScheduleCall r # t) = phaseCalls t"
| "phaseCalls (DisposeCall r # t) = phaseCalls t"

fun phaseRank :: "phase \<Rightarrow> nat" where
  "phaseRank PrepareRenderText = 0"
| "phaseRank RenderText = 1"
| "phaseRank PrepareRender = 2"
| "phaseRank Render = 3"

text \<open>The renderings called in phase \<open>p\<close>, in the order of the calls.\<close>

definition visited :: "phase \<Rightarrow> (phase \<times> rendering \<times> 'd option) list \<Rightarrow> rendering list" where
  "visited p cs = map (\<lambda>c. fst (snd c)) (filter (\<lambda>c. fst c = p) cs)"

text \<open>The calls of the last two phases that a list of renderings with their data gets.\<close>

definition dataCalls ::
  "phase \<Rightarrow> (rendering \<times> 'd option) list \<Rightarrow> (phase \<times> rendering \<times> 'd option) list" where
  "dataCalls p ps =
     concat (map (\<lambda>q. case snd q of None \<Rightarrow> [] | Some d \<Rightarrow> [(p, fst q, Some d)]) ps)"

text \<open>The calls to closures that one run of \<open>_onRenderScheduled\<close> adds to the log.\<close>

definition frameCalls ::
  "('e, 'd) callbacks \<Rightarrow> ('e, 'd) coordinator \<Rightarrow> (phase \<times> rendering \<times> 'd option) list" where
  "frameCalls cbs s =
     drop (length (phaseCalls (trace s))) (phaseCalls (trace (onRenderScheduled cbs s)))"

text \<open>The renderings of a list that have data.\<close>

definition withData :: "(rendering \<times> 'd option) list \<Rightarrow> rendering list" where
  "withData ps = map fst (filter (\<lambda>q. snd q \<noteq> None) ps)"

subsection \<open>Closures that record their calls\<close>

text \<open>
  To state what the frame callback does with the closures it is given, the closures
  are wrapped: \<open>recording cbs\<close> does what \<open>cbs\<close> does and, when a closure returns,
  appends to a list kept beside the environment the phase, the rendering and the
  argument it was called with, together with the calls to the coordinator it made.
  The list is written by the closures alone, so it holds exactly the calls that the
  coordinator made to them, in the order in which they completed.
\<close>

type_synonym 'd invocation = "(phase \<times> rendering \<times> 'd option) \<times> coordinatorCall list"

definition recordingClosure ::
  "phase \<times> rendering \<times> 'd option \<Rightarrow> ('e \<Rightarrow> ('e, 'a) outcome)
     \<Rightarrow> 'e \<times> 'd invocation list \<Rightarrow> ('e \<times> 'd invocation list, 'a) outcome" where
  "recordingClosure c f el =
     (let out = f (fst el)
      in \<lparr>envAfter = (envAfter out, snd el @ [(c, coordinatorCalls out)]),
          coordinatorCalls = coordinatorCalls out,
          returned = returned out\<rparr>)"

definition recording :: "('e, 'd) callbacks \<Rightarrow> ('e \<times> 'd invocation list, 'd) callbacks" where
  "recording cbs =
     \<lparr>cb_prepareRenderText =
        (\<lambda>r. recordingClosure (PrepareRenderText, r, None) (cb_prepareRenderText cbs r)),
      cb_renderText =
        (\<lambda>r. recordingClosure (RenderText, r, None) (cb_renderText cbs r)),
      cb_prepareRender =
        (\<lambda>r d. recordingClosure (PrepareRender, r, Some d) (cb_prepareRender cbs r d)),
      cb_render =
        (\<lambda>r d. recordingClosure (Render, r, Some d) (cb_render cbs r d))\<rparr>"

text \<open>
  The state with another environment. \<open>startRecording\<close> puts an empty list beside the
  environment and \<open>stopRecording\<close> takes the list away again; \<open>invocations\<close> are the
  calls the closures received and \<open>callsMade\<close> the calls to the coordinator they made.
\<close>

definition withEnv :: "'f \<Rightarrow> ('e, 'd) coordinator \<Rightarrow> ('f, 'd) coordinator" where
  "withEnv e s =
     \<lparr>coordinatedRenderings = coordinatedRenderings s,
      animationFrameRunners = animationFrameRunners s,
      requestedFrames = requestedFrames s,
      nextHandle = nextHandle s,
      unexpectedErrors = unexpectedErrors s,
      trace = trace s,
      env = e\<rparr>"

definition startRecording :: "('e, 'd) coordinator \<Rightarrow> ('e \<times> 'd invocation list, 'd) coordinator" where
  "startRecording s = withEnv (env s, []) s"

definition stopRecording :: "('e \<times> 'd invocation list, 'd) coordinator \<Rightarrow> ('e, 'd) coordinator" where
  "stopRecording s = withEnv (fst (env s)) s"

definition invocations ::
  "('e \<times> 'd invocation list, 'd) coordinator \<Rightarrow> (phase \<times> rendering \<times> 'd option) list" where
  "invocations s = map fst (snd (env s))"

definition callsMade :: "('e \<times> 'd invocation list, 'd) coordinator \<Rightarrow> coordinatorCall list" where
  "callsMade s = concat (map snd (snd (env s)))"

subsection \<open>The coordinator at start, and what holds of its state\<close>

text \<open>\<open>new EditorRenderingCoordinator()\<close>, with nothing requested from any window.\<close>

definition initialCoordinator :: "'e \<Rightarrow> ('e, 'd) coordinator" where
  "initialCoordinator e =
     \<lparr>coordinatedRenderings = [], animationFrameRunners = [], requestedFrames = [],
      nextHandle = 0, unexpectedErrors = [], trace = [], env = e\<rparr>"

text \<open>
  The map has one entry per window, and the callbacks outstanding at the windowing
  primitive are those of the map, under handles already issued.
\<close>

definition framesConsistent :: "('e, 'd) coordinator \<Rightarrow> bool" where
  "framesConsistent s \<longleftrightarrow>
     distinct (map fst (animationFrameRunners s))
     \<and> requestedFrames s = map (\<lambda>p. (snd p, fst p)) (animationFrameRunners s)
     \<and> list_all (\<lambda>p. fst p < nextHandle s) (requestedFrames s)"







text \<open>No frame handle is held for two windows.\<close>

definition handlesDistinct :: "('e, 'd) coordinator \<Rightarrow> bool" where
  "handlesDistinct s \<longleftrightarrow> distinct (map snd (animationFrameRunners s))"

section \<open>The View\<close>

subsection \<open>ViewParts and the text subsystem\<close>

text \<open>
  Modelled from the spec: the \<open>ViewPart\<close> class (\<open>view/viewPart.ts\<close>) is not among the
  sources. "Each ViewPart privately tracks whether it needs to render": \<open>shouldRender()\<close>
  reports the flag, \<open>forceShouldRender()\<close> makes it report true "regardless of internal
  dirty state", \<open>onDidRender()\<close> is the "post-render acknowledgment hook" and clears it.
  \<open>prepareRender(ctx)\<close> and \<open>render(ctx)\<close> are collaborator code: all the model keeps
  of them is whether they throw.
\<close>

record viewPart =
  shouldRenderFlag :: bool
  prepareRenderThrows :: bool
  renderThrows :: bool

definition shouldRender :: "viewPart \<Rightarrow> bool" where
  "shouldRender p = shouldRenderFlag p"

definition forceShouldRender :: "viewPart \<Rightarrow> viewPart" where
  "forceShouldRender p = p\<lparr>shouldRenderFlag := True\<rparr>"

definition onDidRender :: "viewPart \<Rightarrow> viewPart" where
  "onDidRender p = p\<lparr>shouldRenderFlag := False\<rparr>"

text \<open>
  The calls a View makes to its collaborators, in order (instrumentation, as \<open>trace\<close>).
  \<open>Entered p\<close> marks the entry into the function for phase \<open>p\<close> of the object that
  \<open>_createCoordinatedRendering\<close> returns. A ViewPart is referred to by its position in
  \<open>_viewParts\<close>, which is filled by the constructor and never changed afterwards.
\<close>

datatype viewCall =
  Entered phase
  | PartPrepareRender nat
  | PartRender nat
  | PartOnDidRender nat
  | PartForceShouldRender nat
  | LinesForceShouldRender
  | LinesRenderText
  | LinesOnDidRender
  | ContentWidgetsOnBeforeRender
  | ComputeGlyphMarginLanes
  | InputLatencyOnRenderStart

text \<open>
  The fields of \<open>View\<close> that rendering reads or writes. \<open>isDisposed\<close> is
  \<open>this._store.isDisposed\<close>, \<open>domWindow\<close> is \<open>dom.getWindow(this.domNode?.domNode)\<close>,
  \<open>isConnected\<close> is \<open>this.domNode.domNode.isConnected\<close>; \<open>renderAnimationFrame\<close> holds
  the handle that \<open>scheduleCoordinatedRendering\<close> returned, that is the rendering it
  cancels. The text subsystem \<open>_viewLines\<close> is a ViewPart kept outside \<open>_viewParts\<close>:
  \<open>linesShouldRender\<close> is its flag, \<open>linesRenderTextThrows\<close> says whether its
  \<open>renderText\<close> throws and \<open>linesRenderTextScrolls\<close> lists the parts that the scroll
  events of text rendering make dirty. \<open>contentWidgets\<close> is the position of
  \<open>_contentWidgets\<close> in \<open>_viewParts\<close>, \<open>linesViewportData\<close> what
  \<open>viewLayout.getLinesViewportData()\<close> returns.
\<close>

record view =
  isDisposed :: bool
  renderAnimationFrame :: "rendering option"
  domWindow :: window
  isConnected :: bool
  shouldRecomputeGlyphMarginLanes :: bool
  linesShouldRender :: bool
  linesRenderTextThrows :: bool
  linesRenderTextScrolls :: "nat list"
  viewParts :: "viewPart list"
  contentWidgets :: nat
  linesViewportData :: nat
  calls :: "viewCall list"

text \<open>\<open>[ViewPart[], RenderingContext]\<close>: the parts to render and the context.\<close>

type_synonym renderData = "nat list \<times> nat"

definition noteCall :: "viewCall \<Rightarrow> view \<Rightarrow> view" where
  "noteCall c v = v\<lparr>calls := calls v @ [c]\<rparr>"

definition updatePart :: "nat \<Rightarrow> (viewPart \<Rightarrow> viewPart) \<Rightarrow> view \<Rightarrow> view" where
  "updatePart p f v =
     (if p < length (viewParts v) then v\<lparr>viewParts := (viewParts v)[p := f (viewParts v ! p)]\<rparr>
      else v)"

subsection \<open>The rendering of a View\<close>

text \<open>\<open>_getViewPartsToRender()\<close>: the parts whose \<open>shouldRender()\<close> is true, in order.\<close>

definition getViewPartsToRender :: "view \<Rightarrow> nat list" where
  "getViewPartsToRender v =
     filter (\<lambda>p. shouldRender (viewParts v ! p)) [0 ..< length (viewParts v)]"

text \<open>
  \<open>prepareRenderText\<close> of \<open>_createCoordinatedRendering\<close>. The lane computation and
  \<open>inputLatency.onRenderStart()\<close> are collaborator calls; they are taken to return.
\<close>

definition rendering_prepareRenderText :: "view \<Rightarrow> (error + unit) \<times> view" where
  "rendering_prepareRenderText v =
     (let v0 = noteCall (Entered PrepareRenderText) v;
          v1 = (if shouldRecomputeGlyphMarginLanes v0
                then noteCall ComputeGlyphMarginLanes (v0\<lparr>shouldRecomputeGlyphMarginLanes := False\<rparr>)
                else v0)
      in (Inr (), noteCall InputLatencyOnRenderStart v1))"

text \<open>
  \<open>this._viewLines.renderText(viewportData)\<close>: it throws, or it returns and the parts
  of \<open>linesRenderTextScrolls\<close> have become dirty.
\<close>

definition viewLines_renderText :: "view \<Rightarrow> (error + unit) \<times> view" where
  "viewLines_renderText v =
     (let v0 = noteCall LinesRenderText v
      in if linesRenderTextThrows v0 then (Inl TextError, v0)
         else (Inr (), foldl (\<lambda>t p. updatePart p forceShouldRender t) v0 (linesRenderTextScrolls v0)))"

definition viewLines_onDidRender :: "view \<Rightarrow> view" where
  "viewLines_onDidRender v = (noteCall LinesOnDidRender v)\<lparr>linesShouldRender := False\<rparr>"

text \<open>
  \<open>renderText\<close> of \<open>_createCoordinatedRendering\<close>. The viewport computations
  (\<open>getLinesViewportData\<close>, \<open>setViewport\<close>, \<open>new ViewportData\<close>) are taken to return.
\<close>

definition rendering_renderText :: "view \<Rightarrow> (error + renderData option) \<times> view" where
  "rendering_renderText v =
     (let v0 = noteCall (Entered RenderText) v
      in if \<not> isConnected v0 then (Inr None, v0)
         else (let viewPartsToRender = getViewPartsToRender v0
               in if \<not> linesShouldRender v0 \<and> length viewPartsToRender = 0 then (Inr None, v0)
                  else (let v1 = (if contentWidgets v0 < length (viewParts v0)
                                     \<and> shouldRender (viewParts v0 ! contentWidgets v0)
                                  then noteCall ContentWidgetsOnBeforeRender v0 else v0)
                        in if linesShouldRender v1
                           then (case viewLines_renderText v1 of
                                   (Inl e, v2) \<Rightarrow> (Inl e, v2)
                                 | (Inr u, v2) \<Rightarrow>
                                     (let v3 = viewLines_onDidRender v2
                                      in (Inr (Some (getViewPartsToRender v3, linesViewportData v3)), v3)))
                           else (Inr (Some (viewPartsToRender, linesViewportData v1)), v1))))"

text \<open>
  \<open>prepareRender\<close> of \<open>_createCoordinatedRendering\<close>:
  \<open>for (const viewPart of viewPartsToRender) { viewPart.prepareRender(ctx); }\<close>.
  A throw of a part leaves the loop and the function.
\<close>

fun prepareRenderParts :: "nat list \<Rightarrow> view \<Rightarrow> (error + unit) \<times> view" where
  "prepareRenderParts [] v = (Inr (), v)"
| "prepareRenderParts (p # ps) v =
     (let v1 = noteCall (PartPrepareRender p) v
      in if p < length (viewParts v1) \<and> prepareRenderThrows (viewParts v1 ! p)
         then (Inl (PartError p), v1)
         else prepareRenderParts ps v1)"

definition rendering_prepareRender :: "renderData \<Rightarrow> view \<Rightarrow> (error + unit) \<times> view" where
  "rendering_prepareRender d v = prepareRenderParts (fst d) (noteCall (Entered PrepareRender) v)"

text \<open>
  \<open>render\<close> of \<open>_createCoordinatedRendering\<close>:
  \<open>for (const viewPart of viewPartsToRender) { viewPart.render(ctx); viewPart.onDidRender(); }\<close>.
\<close>

fun renderParts :: "nat list \<Rightarrow> view \<Rightarrow> (error + unit) \<times> view" where
  "renderParts [] v = (Inr (), v)"
| "renderParts (p # ps) v =
     (let v1 = noteCall (PartRender p) v
      in if p < length (viewParts v1) \<and> renderThrows (viewParts v1 ! p)
         then (Inl (PartError p), v1)
         else renderParts ps (updatePart p onDidRender (noteCall (PartOnDidRender p) v1)))"

definition rendering_render :: "renderData \<Rightarrow> view \<Rightarrow> (error + unit) \<times> view" where
  "rendering_render d v = renderParts (fst d) (noteCall (Entered Render) v)"

subsection \<open>The rendering a View registers with the coordinator\<close>

text \<open>
  The four closures of the object literal in \<open>View._scheduleRender\<close>. Each throws when
  the View is disposed; \<open>prepareRenderText\<close> clears \<open>_renderAnimationFrame\<close> in its
  \<open>finally\<close>, which the throw before the \<open>try\<close> does not reach.
\<close>

definition scheduled_prepareRenderText :: "view \<Rightarrow> (error + unit) \<times> view" where
  "scheduled_prepareRenderText v =
     (if isDisposed v then (Inl BugIndicatingError, v)
      else (let (res, v1) = rendering_prepareRenderText v
            in (res, v1\<lparr>renderAnimationFrame := None\<rparr>)))"

definition scheduled_renderText :: "view \<Rightarrow> (error + renderData option) \<times> view" where
  "scheduled_renderText v =
     (if isDisposed v then (Inl BugIndicatingError, v) else rendering_renderText v)"

definition scheduled_prepareRender :: "renderData \<Rightarrow> view \<Rightarrow> (error + unit) \<times> view" where
  "scheduled_prepareRender d v =
     (if isDisposed v then (Inl BugIndicatingError, v) else rendering_prepareRender d v)"

definition scheduled_render :: "renderData \<Rightarrow> view \<Rightarrow> (error + unit) \<times> view" where
  "scheduled_render d v =
     (if isDisposed v then (Inl BugIndicatingError, v) else rendering_render d v)"

text \<open>
  The environment of these closures: the Views of the process, and the number of
  rendering objects built so far (the identity of the next one).
\<close>

record viewEnv =
  views :: "nat \<Rightarrow> view"
  renderingsCreated :: nat

type_synonym editor = "(viewEnv, renderData) coordinator"

text \<open>A function of View \<open>i\<close> as a closure on the environment.\<close>

definition onView ::
  "nat \<Rightarrow> (view \<Rightarrow> (error + 'a) \<times> view) \<Rightarrow> viewEnv \<Rightarrow> (viewEnv, 'a) outcome" where
  "onView i f e =
     (let (res, v) = f (views e i)
      in \<lparr>envAfter = e\<lparr>views := (views e)(i := v)\<rparr>, coordinatorCalls = [], returned = res\<rparr>)"

definition viewCallbacks :: "(viewEnv, renderData) callbacks" where
  "viewCallbacks =
     \<lparr>cb_prepareRenderText = (\<lambda>r. onView (owner r) scheduled_prepareRenderText),
      cb_renderText = (\<lambda>r. onView (owner r) scheduled_renderText),
      cb_prepareRender = (\<lambda>r d. onView (owner r) (scheduled_prepareRender d)),
      cb_render = (\<lambda>r d. onView (owner r) (scheduled_render d))\<rparr>"

subsection \<open>Scheduling, rendering now, disposing\<close>

text \<open>
  The object literal that \<open>View._scheduleRender\<close> passes to
  \<open>scheduleCoordinatedRendering\<close>: a new object on every call, closing over View \<open>i\<close>.
\<close>

definition newRendering :: "nat \<Rightarrow> editor \<Rightarrow> rendering" where
  "newRendering i s =
     \<lparr>renderingId = renderingsCreated (env s), window = domWindow (views (env s) i), owner = i\<rparr>"

text \<open>\<open>View._scheduleRender()\<close> of View \<open>i\<close>.\<close>

definition view_scheduleRender :: "nat \<Rightarrow> editor \<Rightarrow> (error + unit) \<times> editor" where
  "view_scheduleRender i s =
     (let v = views (env s) i
      in if isDisposed v then (Inl BugIndicatingError, s)
         else if renderAnimationFrame v = None
         then (let r = newRendering i s;
                   s1 = scheduleCoordinatedRendering r s
               in (Inr (),
                   s1\<lparr>env := (env s1)\<lparr>views := (views (env s1))(i := v\<lparr>renderAnimationFrame := Some r\<rparr>),
                                      renderingsCreated := Suc (renderingsCreated (env s1))\<rparr>\<rparr>))
         else (Inr (), s))"

text \<open>\<open>View._flushAccumulatedAndRenderNow()\<close> of View \<open>i\<close>.\<close>

definition flushAccumulatedAndRenderNow :: "nat \<Rightarrow> editor \<Rightarrow> editor" where
  "flushAccumulatedAndRenderNow i s =
     (let s1 = snd (safeInvokeNoArg (onView i rendering_prepareRenderText) s);
          (data, s2) = safeInvokeNoArg (onView i rendering_renderText) s1
      in case data of
           Some (Some d) \<Rightarrow>
             (let s3 = snd (safeInvokeNoArg (onView i (rendering_prepareRender d)) s2)
              in snd (safeInvokeNoArg (onView i (rendering_render d)) s3))
         | _ \<Rightarrow> s2)"

text \<open>The loop of \<open>View.render\<close> that forces everything to render.\<close>

definition forceEverything :: "view \<Rightarrow> view" where
  "forceEverything v =
     foldl (\<lambda>t p. updatePart p forceShouldRender (noteCall (PartForceShouldRender p) t))
       ((noteCall LinesForceShouldRender v)\<lparr>linesShouldRender := True\<rparr>)
       [0 ..< length (viewParts v)]"

definition setView :: "nat \<Rightarrow> view \<Rightarrow> editor \<Rightarrow> editor" where
  "setView i v s = s\<lparr>env := (env s)\<lparr>views := (views (env s))(i := v)\<rparr>\<rparr>"

text \<open>\<open>View.render(now, everything)\<close> of View \<open>i\<close>.\<close>

definition view_render :: "bool \<Rightarrow> bool \<Rightarrow> nat \<Rightarrow> editor \<Rightarrow> (error + unit) \<times> editor" where
  "view_render now everything i s =
     (let s1 = (if everything then setView i (forceEverything (views (env s) i)) s else s)
      in if now then (Inr (), flushAccumulatedAndRenderNow i s1)
         else view_scheduleRender i s1)"

text \<open>
  \<open>View.dispose()\<close> of View \<open>i\<close>: the pending rendering is cancelled; the parts are
  disposed and \<open>super.dispose()\<close> disposes \<open>_store\<close>.
\<close>

definition view_dispose :: "nat \<Rightarrow> editor \<Rightarrow> editor" where
  "view_dispose i s =
     (let s1 = (case renderAnimationFrame (views (env s) i) of
                  None \<Rightarrow> s
                | Some r \<Rightarrow> disposeRendering r s)
      in setView i ((views (env s1) i)\<lparr>renderAnimationFrame := None, isDisposed := True\<rparr>) s1)"

subsection \<open>What is observed of a View\<close>

text \<open>
  The phases whose functions were entered, and the calls to ViewParts, in a log of a
  View. \<open>hasData\<close> says when \<open>renderText\<close> of \<open>_createCoordinatedRendering\<close> returns
  data rather than \<open>null\<close> or a throw: the root is connected, there is something to
  render, and text rendering (when it runs) does not throw.
\<close>

definition phasesEntered :: "viewCall list \<Rightarrow> phase list" where
  "phasesEntered cs = concat (map (\<lambda>c. case c of Entered p \<Rightarrow> [p] | _ \<Rightarrow> []) cs)"

definition partCalls :: "viewCall list \<Rightarrow> viewCall list" where
  "partCalls cs =
     filter (\<lambda>c. case c of PartPrepareRender q \<Rightarrow> True | PartRender q \<Rightarrow> True
                   | PartOnDidRender q \<Rightarrow> True | _ \<Rightarrow> False) cs"

definition hasData :: "view \<Rightarrow> bool" where
  "hasData v \<longleftrightarrow>
     isConnected v \<and> (linesShouldRender v \<or> getViewPartsToRender v \<noteq> [])
     \<and> \<not> (linesShouldRender v \<and> linesRenderTextThrows v)"

text \<open>
  Every pending rendering is the one its View holds the handle of, and none is
  pending twice.
\<close>

definition schedulingConsistent :: "editor \<Rightarrow> bool" where
  "schedulingConsistent s \<longleftrightarrow>
     distinct (coordinatedRenderings s)
     \<and> list_all (\<lambda>r. renderAnimationFrame (views (env s) (owner r)) = Some r)
         (coordinatedRenderings s)"


section \<open>Concrete inputs\<close>

text \<open>
  Three renderings in two windows, with closures that count their calls in the
  environment: the closure of rendering 1 schedules a further rendering while its
  \<open>prepareRenderText\<close> runs and throws in \<open>prepareRender\<close>, that of rendering 2 throws
  in \<open>prepareRenderText\<close>, and \<open>renderText\<close> of rendering 3 returns \<open>null\<close>.
\<close>

definition exR :: "nat \<Rightarrow> window \<Rightarrow> rendering" where
  "exR n w = \<lparr>renderingId = n, window = w, owner = n\<rparr>"

definition exCallbacks :: "(nat, nat) callbacks" where
  "exCallbacks =
     \<lparr>cb_prepareRenderText = (\<lambda>r e. \<lparr>envAfter = Suc e,
          coordinatorCalls = (if renderingId r = 1 then [CallSchedule (exR 7 (window r))] else []),
          returned = (if renderingId r = 2 then Inl (ExternalError 2) else Inr ())\<rparr>),
      cb_renderText = (\<lambda>r e. \<lparr>envAfter = Suc e, coordinatorCalls = [],
          returned = (if renderingId r = 3 then Inr None else Inr (Some (10 * renderingId r)))\<rparr>),
      cb_prepareRender = (\<lambda>r d e. \<lparr>envAfter = Suc e, coordinatorCalls = [],
          returned = (if renderingId r = 1 then Inl (ExternalError d) else Inr ())\<rparr>),
      cb_render = (\<lambda>r d e. \<lparr>envAfter = Suc e, coordinatorCalls = [],
          returned = Inr ()\<rparr>)\<rparr>"

definition exState :: "(nat, nat) coordinator" where
  "exState =
     \<lparr>coordinatedRenderings = [exR 1 0, exR 2 0, exR 3 1],
      animationFrameRunners = [(1, 1)],
      requestedFrames = [(1, 1)],
      nextHandle = 2,
      unexpectedErrors = [],
      trace = [],
      env = 0\<rparr>"




text \<open>
  A View in window 0 with two dirty parts, the first of which throws in
  \<open>prepareRender\<close>; an editor holding this View at every index and a new coordinator;
  the editor after \<open>scheduleRender\<close> of View 0, and the rendering registered by it.
\<close>

definition exPart :: "bool \<Rightarrow> bool \<Rightarrow> bool \<Rightarrow> viewPart" where
  "exPart d p r = \<lparr>shouldRenderFlag = d, prepareRenderThrows = p, renderThrows = r\<rparr>"

definition exView :: view where
  "exView =
     \<lparr>isDisposed = False, renderAnimationFrame = None, domWindow = 0, isConnected = True,
      shouldRecomputeGlyphMarginLanes = False, linesShouldRender = False,
      linesRenderTextThrows = False, linesRenderTextScrolls = [],
      viewParts = [exPart True True False, exPart True False False],
      contentWidgets = 1, linesViewportData = 5, calls = []\<rparr>"

definition exEditor :: editor where
  "exEditor = initialCoordinator \<lparr>views = (\<lambda>i. exView), renderingsCreated = 0\<rparr>"

definition exRendering :: rendering where
  "exRendering = \<lparr>renderingId = 0, window = 0, owner = 0\<rparr>"

definition exScheduled :: editor where
  "exScheduled = snd (view_scheduleRender 0 exEditor)"

text \<open>
  A View whose text rendering scrolls: no part is dirty, and text rendering makes
  part 1 dirty.
\<close>

definition exScrollingView :: view where
  "exScrollingView =
     exView\<lparr>linesShouldRender := True, linesRenderTextScrolls := [1],
            viewParts := [exPart False False False, exPart False False False]\<rparr>"

text \<open>
  View 0 disposed after scheduling; View 0 with its root detached, before and after
  scheduling.
\<close>

definition exDisposed :: editor where
  "exDisposed = view_dispose 0 (snd (view_scheduleRender 0 exEditor))"


definition exDetachedScheduled :: editor where
  "exDetachedScheduled =
     setView 0 ((views (env exScheduled) 0)\<lparr>isConnected := False\<rparr>) exScheduled"


section \<open>Properties of the frame callback\<close>

lemma phaseCalls_append: "phaseCalls (t @ u) = phaseCalls t @ phaseCalls u"
  by (induction t rule: phaseCalls.induct) simp_all

lemma trace_cancelFrames [simp]:
  "trace (foldl (\<lambda>t p. cancelFrame (snd p) t) s ps) = trace s"
  by (induction ps arbitrary: s) (simp_all add: cancelFrame_def)

lemma trace_coordinator_scheduleRender [simp]:
  "trace (coordinator_scheduleRender w s) = trace s"
  by (simp add: coordinator_scheduleRender_def requestFrame_def)

lemma trace_scheduleCoordinatedRendering [simp]:
  "trace (scheduleCoordinatedRendering r s) = trace s @ [ScheduleCall r]"
  by (simp add: scheduleCoordinatedRendering_def)

lemma trace_disposeRendering [simp]:
  "trace (disposeRendering r s) = trace s @ [DisposeCall r]"
  by (simp add: disposeRendering_def Let_def)

lemma phaseCalls_performCall [simp]:
  "phaseCalls (trace (performCall c s)) = phaseCalls (trace s)"
  by (cases c) (simp_all add: phaseCalls_append)

lemma phaseCalls_coordinatorCalls_run [simp]:
  "phaseCalls (trace (coordinatorCalls_run cs s)) = phaseCalls (trace s)"
  unfolding coordinatorCalls_run_def
  by (induction cs arbitrary: s) simp_all

lemma phaseCalls_safeInvokeNoArg [simp]:
  "phaseCalls (trace (snd (safeInvokeNoArg func s))) = phaseCalls (trace s)"
  by (simp add: safeInvokeNoArg_def Let_def split: sum.splits)

lemma phaseCalls_logCall [simp]:
  "phaseCalls (trace (logCall p r a s)) = phaseCalls (trace s) @ [(p, r, a)]"
  by (simp add: logCall_def phaseCalls_append)

lemma phaseCalls_prepareRenderTextLoop:
  "phaseCalls (trace (prepareRenderTextLoop cbs rs s)) =
     phaseCalls (trace s) @ map (\<lambda>r. (PrepareRenderText, r, None)) rs"
  by (induction rs arbitrary: s) simp_all

lemma length_renderTextLoop [simp]:
  "length (fst (renderTextLoop cbs rs s)) = length rs"
  by (induction rs arbitrary: s) (simp_all add: split_def Let_def)

lemma phaseCalls_renderTextLoop:
  "phaseCalls (trace (snd (renderTextLoop cbs rs s))) =
     phaseCalls (trace s) @ map (\<lambda>r. (RenderText, r, None)) rs"
  by (induction rs arbitrary: s) (simp_all add: split_def Let_def)

lemma phaseCalls_prepareRenderLoop:
  "phaseCalls (trace (prepareRenderLoop cbs ps s)) =
     phaseCalls (trace s) @ dataCalls PrepareRender ps"
  by (induction ps arbitrary: s) (simp_all add: dataCalls_def split: option.splits)

lemma phaseCalls_renderLoop:
  "phaseCalls (trace (renderLoop cbs ps s)) =
     phaseCalls (trace s) @ dataCalls Render ps"
  by (induction ps arbitrary: s) (simp_all add: dataCalls_def split: option.splits)

lemma phaseCalls_onRenderScheduled:
  "phaseCalls (trace (onRenderScheduled cbs s)) =
     phaseCalls (trace s)
     @ map (\<lambda>r. (PrepareRenderText, r, None)) (coordinatedRenderings s)
     @ map (\<lambda>r. (RenderText, r, None)) (coordinatedRenderings s)
     @ dataCalls PrepareRender (zip (coordinatedRenderings s) (frameDatas cbs s))
     @ dataCalls Render (zip (coordinatedRenderings s) (frameDatas cbs s))"
  by (simp add: onRenderScheduled_def frameDatas_def Let_def phaseCalls_renderLoop
      phaseCalls_prepareRenderLoop phaseCalls_renderTextLoop phaseCalls_prepareRenderTextLoop
      split_def)

lemma frameCalls_eq:
  "frameCalls cbs s =
     map (\<lambda>r. (PrepareRenderText, r, None)) (coordinatedRenderings s)
     @ map (\<lambda>r. (RenderText, r, None)) (coordinatedRenderings s)
     @ dataCalls PrepareRender (zip (coordinatedRenderings s) (frameDatas cbs s))
     @ dataCalls Render (zip (coordinatedRenderings s) (frameDatas cbs s))"
  by (simp add: frameCalls_def phaseCalls_onRenderScheduled)

lemma fst_dataCalls: "c \<in> set (dataCalls p ps) \<Longrightarrow> fst c = p"
  by (auto simp: dataCalls_def split: option.splits)

lemma visited_append [simp]: "visited p (cs @ ds) = visited p cs @ visited p ds"
  by (simp add: visited_def)

lemma visited_map:
  "visited p (map (\<lambda>r. (q, r, a)) rs) = (if p = q then rs else [])"
  by (induction rs) (auto simp: visited_def)

lemma visited_dataCalls:
  "visited p (dataCalls q ps) = (if p = q then withData ps else [])"
  by (induction ps) (auto simp: visited_def dataCalls_def withData_def split: option.splits)

lemma sorted_same_phase:
  "\<forall>c \<in> set cs. fst c = p \<Longrightarrow> sorted_wrt (\<lambda>a b. phaseRank (fst a) \<le> phaseRank (fst b)) cs"
  by (induction cs) auto

lemma sorted_phase_map:
  "sorted_wrt (\<lambda>a b. phaseRank (fst a) \<le> phaseRank (fst b)) (map (\<lambda>r. (p, r, x)) rs)"
  by (rule sorted_same_phase) auto

lemma subseq_withData_zip: "subseq (withData (zip rs ds)) rs"
proof (induction rs arbitrary: ds)
  case Nil
  show ?case by (simp add: withData_def)
next
  case (Cons r rs)
  show ?case
  proof (cases ds)
    case Nil
    then show ?thesis by (simp add: withData_def)
  next
    case (Cons d ds')
    with Cons.IH [of ds'] show ?thesis
      by (auto simp: withData_def)
  qed
qed

lemma length_frameDatas [simp]: "length (frameDatas cbs s) = length (coordinatedRenderings s)"
  by (simp add: frameDatas_def)

lemma dataCalls_nth:
  "i < length rs \<Longrightarrow> i < length ds \<Longrightarrow> ds ! i = Some d \<Longrightarrow>
     (p, rs ! i, Some d) \<in> set (dataCalls p (zip rs ds))"
proof -
  assume a: "i < length rs" "i < length ds" "ds ! i = Some d"
  then have "(rs ! i, Some d) \<in> set (zip rs ds)"
    by (auto simp: set_zip)
  then show ?thesis
    by (force simp: dataCalls_def)
qed


subsection \<open>What the two entry points keep\<close>

lemma requestedFrames_cancelFrames:
  "requestedFrames (foldl (\<lambda>t p. cancelFrame (snd p) t) s ps) =
     filter (\<lambda>q. fst q \<notin> snd ` set ps) (requestedFrames s)"
  by (induction ps arbitrary: s) (auto simp: cancelFrame_def intro: filter_cong)

lemma other_cancelFrames [simp]:
  "coordinatedRenderings (foldl (\<lambda>t p. cancelFrame (snd p) t) s ps) = coordinatedRenderings s"
  "animationFrameRunners (foldl (\<lambda>t p. cancelFrame (snd p) t) s ps) = animationFrameRunners s"
  "nextHandle (foldl (\<lambda>t p. cancelFrame (snd p) t) s ps) = nextHandle s"
  by (induction ps arbitrary: s) (simp_all add: cancelFrame_def)

lemma framesConsistent_scheduleRender:
  "framesConsistent s \<Longrightarrow> framesConsistent (coordinator_scheduleRender w s)"
  by (auto simp: framesConsistent_def coordinator_scheduleRender_def requestFrame_def
      list_all_iff less_Suc_eq)

lemma framesConsistent_schedule:
  assumes "framesConsistent s"
  shows "framesConsistent (scheduleCoordinatedRendering r s)"
proof -
  have "framesConsistent (s\<lparr>coordinatedRenderings := coordinatedRenderings s @ [r],
                            trace := trace s @ [ScheduleCall r]\<rparr>)"
    using assms by (auto simp: framesConsistent_def)
  then show ?thesis
    unfolding scheduleCoordinatedRendering_def by (rule framesConsistent_scheduleRender)
qed

lemma framesConsistent_dispose:
  "framesConsistent s \<Longrightarrow> framesConsistent (disposeRendering r s)"
  by (auto simp: framesConsistent_def disposeRendering_def Let_def requestedFrames_cancelFrames
      list_all_iff)

lemma runner_after_scheduleRender:
  "w \<in> set (map fst (animationFrameRunners (coordinator_scheduleRender w s)))"
  by (auto simp: coordinator_scheduleRender_def requestFrame_def)


lemma coordinatedRenderings_scheduleRender [simp]:
  "coordinatedRenderings (coordinator_scheduleRender w s) = coordinatedRenderings s"
  by (simp add: coordinator_scheduleRender_def requestFrame_def)

lemma coordinatedRenderings_schedule [simp]:
  "coordinatedRenderings (scheduleCoordinatedRendering r s) = coordinatedRenderings s @ [r]"
  by (simp add: scheduleCoordinatedRendering_def)












subsection \<open>C5: frame handles\<close>





subsection \<open>What a run of the frame callback keeps\<close>

lemma prepareRenderTextLoop_preserves:
  assumes log: "\<And>p r a t. I t \<Longrightarrow> I (logCall p r a t)"
    and inv: "\<And>r t. I t \<Longrightarrow> I (snd (safeInvokeNoArg (cb_prepareRenderText cbs r) t))"
  shows "I s \<Longrightarrow> I (prepareRenderTextLoop cbs rs s)"
  by (induction rs arbitrary: s) (simp_all add: log inv)

lemma renderTextLoop_preserves:
  assumes log: "\<And>p r a t. I t \<Longrightarrow> I (logCall p r a t)"
    and inv: "\<And>r t. I t \<Longrightarrow> I (snd (safeInvokeNoArg (cb_renderText cbs r) t))"
  shows "I s \<Longrightarrow> I (snd (renderTextLoop cbs rs s))"
  by (induction rs arbitrary: s) (simp_all add: log inv split_def Let_def)

lemma prepareRenderLoop_preserves:
  assumes log: "\<And>p r a t. I t \<Longrightarrow> I (logCall p r a t)"
    and inv: "\<And>r d t. I t \<Longrightarrow> I (snd (safeInvokeNoArg (cb_prepareRender cbs r d) t))"
  shows "I s \<Longrightarrow> I (prepareRenderLoop cbs ps s)"
  by (induction ps arbitrary: s) (simp_all add: log inv split: option.splits)

lemma renderLoop_preserves:
  assumes log: "\<And>p r a t. I t \<Longrightarrow> I (logCall p r a t)"
    and inv: "\<And>r d t. I t \<Longrightarrow> I (snd (safeInvokeNoArg (cb_render cbs r d) t))"
  shows "I s \<Longrightarrow> I (renderLoop cbs ps s)"
  by (induction ps arbitrary: s) (simp_all add: log inv split: option.splits)

lemma onRenderScheduled_preserves:
  assumes log: "\<And>p r a t. I t \<Longrightarrow> I (logCall p r a t)"
    and p1: "\<And>r t. I t \<Longrightarrow> I (snd (safeInvokeNoArg (cb_prepareRenderText cbs r) t))"
    and p2: "\<And>r t. I t \<Longrightarrow> I (snd (safeInvokeNoArg (cb_renderText cbs r) t))"
    and p3: "\<And>r d t. I t \<Longrightarrow> I (snd (safeInvokeNoArg (cb_prepareRender cbs r d) t))"
    and p4: "\<And>r d t. I t \<Longrightarrow> I (snd (safeInvokeNoArg (cb_render cbs r d) t))"
    and start: "I (s\<lparr>coordinatedRenderings := []\<rparr>)"
  shows "I (onRenderScheduled cbs s)"
proof -
  let ?rs = "coordinatedRenderings s"
  let ?s1 = "prepareRenderTextLoop cbs ?rs (s\<lparr>coordinatedRenderings := []\<rparr>)"
  let ?l2 = "renderTextLoop cbs ?rs ?s1"
  let ?s3 = "prepareRenderLoop cbs (zip ?rs (fst ?l2)) (snd ?l2)"
  have 1: "I ?s1"
    using log p1 start by (rule prepareRenderTextLoop_preserves [where I = I])
  have 2: "I (snd ?l2)"
    using log p2 1 by (rule renderTextLoop_preserves [where I = I])
  have 3: "I ?s3"
    using log p3 2 by (rule prepareRenderLoop_preserves [where I = I])
  have "I (renderLoop cbs (zip ?rs (fst ?l2)) ?s3)"
    using log p4 3 by (rule renderLoop_preserves [where I = I])
  then show ?thesis
    by (simp add: onRenderScheduled_def Let_def split_def)
qed

lemma calls_preserve:
  assumes "\<And>c t. I t \<Longrightarrow> I (performCall c t)"
  shows "I s \<Longrightarrow> I (coordinatorCalls_run cs s)"
  unfolding coordinatorCalls_run_def
  by (induction cs arbitrary: s) (simp_all add: assms)

lemma safeInvokeNoArg_preserves:
  assumes call: "\<And>c t. I t \<Longrightarrow> I (performCall c t)"
    and setEnv: "\<And>e t. I t \<Longrightarrow> I (t\<lparr>env := e\<rparr>)"
    and report: "\<And>x t. I t \<Longrightarrow> I (t\<lparr>unexpectedErrors := x\<rparr>)"
  shows "I s \<Longrightarrow> I (snd (safeInvokeNoArg f s))"
proof -
  assume "I s"
  then have 1: "I (s\<lparr>env := envAfter (f (env s))\<rparr>)"
    by (rule setEnv)
  have "I (coordinatorCalls_run (coordinatorCalls (f (env s))) (s\<lparr>env := envAfter (f (env s))\<rparr>))"
    by (rule calls_preserve [where I = I]) (simp_all add: call 1)
  then show ?thesis
    by (auto simp: safeInvokeNoArg_def Let_def report split: sum.splits)
qed


lemma remove1_empty: "remove1 y xs = [] \<Longrightarrow> x \<in> set xs \<Longrightarrow> x = y"
  by (cases xs) (auto split: if_splits)

section \<open>Properties of the View\<close>

subsection \<open>Fields that the helpers leave alone\<close>

lemma updatePart_fields [simp]:
  "isDisposed (updatePart p f v) = isDisposed v"
  "renderAnimationFrame (updatePart p f v) = renderAnimationFrame v"
  "domWindow (updatePart p f v) = domWindow v"
  "isConnected (updatePart p f v) = isConnected v"
  "shouldRecomputeGlyphMarginLanes (updatePart p f v) = shouldRecomputeGlyphMarginLanes v"
  "linesShouldRender (updatePart p f v) = linesShouldRender v"
  "linesRenderTextThrows (updatePart p f v) = linesRenderTextThrows v"
  "linesRenderTextScrolls (updatePart p f v) = linesRenderTextScrolls v"
  "contentWidgets (updatePart p f v) = contentWidgets v"
  "linesViewportData (updatePart p f v) = linesViewportData v"
  "calls (updatePart p f v) = calls v"
  "length (viewParts (updatePart p f v)) = length (viewParts v)"
  by (simp_all add: updatePart_def)

lemma nth_updatePart:
  "q < length (viewParts v) \<Longrightarrow>
     viewParts (updatePart p f v) ! q = (if q = p then f (viewParts v ! q) else viewParts v ! q)"
  by (simp add: updatePart_def)

lemma noteCall_fields [simp]:
  "isDisposed (noteCall c v) = isDisposed v"
  "renderAnimationFrame (noteCall c v) = renderAnimationFrame v"
  "domWindow (noteCall c v) = domWindow v"
  "isConnected (noteCall c v) = isConnected v"
  "shouldRecomputeGlyphMarginLanes (noteCall c v) = shouldRecomputeGlyphMarginLanes v"
  "linesShouldRender (noteCall c v) = linesShouldRender v"
  "linesRenderTextThrows (noteCall c v) = linesRenderTextThrows v"
  "linesRenderTextScrolls (noteCall c v) = linesRenderTextScrolls v"
  "contentWidgets (noteCall c v) = contentWidgets v"
  "linesViewportData (noteCall c v) = linesViewportData v"
  "viewParts (noteCall c v) = viewParts v"
  "calls (noteCall c v) = calls v @ [c]"
  by (simp_all add: noteCall_def)

lemma forceScrolled_fields [simp]:
  "isConnected (foldl (\<lambda>t p. updatePart p forceShouldRender t) v ps) = isConnected v"
  "isDisposed (foldl (\<lambda>t p. updatePart p forceShouldRender t) v ps) = isDisposed v"
  "renderAnimationFrame (foldl (\<lambda>t p. updatePart p forceShouldRender t) v ps) = renderAnimationFrame v"
  "linesViewportData (foldl (\<lambda>t p. updatePart p forceShouldRender t) v ps) = linesViewportData v"
  "calls (foldl (\<lambda>t p. updatePart p forceShouldRender t) v ps) = calls v"
  "length (viewParts (foldl (\<lambda>t p. updatePart p forceShouldRender t) v ps)) = length (viewParts v)"
  by (induction ps arbitrary: v) simp_all

lemma shouldRender_forceScrolled:
  "q < length (viewParts v) \<Longrightarrow>
     shouldRender (viewParts (foldl (\<lambda>t p. updatePart p forceShouldRender t) v ps) ! q)
       \<longleftrightarrow> shouldRender (viewParts v ! q) \<or> q \<in> set ps"
  by (induction ps arbitrary: v)
    (auto simp: nth_updatePart shouldRender_def forceShouldRender_def)

lemma set_getViewPartsToRender:
  "set (getViewPartsToRender v) = {p. p < length (viewParts v) \<and> shouldRender (viewParts v ! p)}"
  by (auto simp: getViewPartsToRender_def)

lemma getViewPartsToRender_cong:
  "viewParts v = viewParts w \<Longrightarrow> getViewPartsToRender v = getViewPartsToRender w"
  by (simp add: getViewPartsToRender_def)

lemma env_setView [simp]:
  "views (env (setView i v s)) = (views (env s))(i := v)"
  "renderingsCreated (env (setView i v s)) = renderingsCreated (env s)"
  "coordinatedRenderings (setView i v s) = coordinatedRenderings s"
  "animationFrameRunners (setView i v s) = animationFrameRunners s"
  "requestedFrames (setView i v s) = requestedFrames s"
  "nextHandle (setView i v s) = nextHandle s"
  "unexpectedErrors (setView i v s) = unexpectedErrors s"
  "trace (setView i v s) = trace s"
  by (simp_all add: setView_def)

lemma forceEverything_fields [simp]:
  "isDisposed (forceEverything v) = isDisposed v"
  "isConnected (forceEverything v) = isConnected v"
  "renderAnimationFrame (forceEverything v) = renderAnimationFrame v"
  "domWindow (forceEverything v) = domWindow v"
  "linesRenderTextThrows (forceEverything v) = linesRenderTextThrows v"
  "length (viewParts (forceEverything v)) = length (viewParts v)"
proof -
  have "isDisposed (foldl (\<lambda>t p. updatePart p forceShouldRender (noteCall (PartForceShouldRender p) t)) w ps) = isDisposed w
    \<and> isConnected (foldl (\<lambda>t p. updatePart p forceShouldRender (noteCall (PartForceShouldRender p) t)) w ps) = isConnected w
    \<and> renderAnimationFrame (foldl (\<lambda>t p. updatePart p forceShouldRender (noteCall (PartForceShouldRender p) t)) w ps) = renderAnimationFrame w
    \<and> domWindow (foldl (\<lambda>t p. updatePart p forceShouldRender (noteCall (PartForceShouldRender p) t)) w ps) = domWindow w
    \<and> linesRenderTextThrows (foldl (\<lambda>t p. updatePart p forceShouldRender (noteCall (PartForceShouldRender p) t)) w ps) = linesRenderTextThrows w
    \<and> length (viewParts (foldl (\<lambda>t p. updatePart p forceShouldRender (noteCall (PartForceShouldRender p) t)) w ps)) = length (viewParts w)"
    for w ps
    by (induction ps arbitrary: w) simp_all
  then show "isDisposed (forceEverything v) = isDisposed v"
    "isConnected (forceEverything v) = isConnected v"
    "renderAnimationFrame (forceEverything v) = renderAnimationFrame v"
    "domWindow (forceEverything v) = domWindow v"
    "linesRenderTextThrows (forceEverything v) = linesRenderTextThrows v"
    "length (viewParts (forceEverything v)) = length (viewParts v)"
    by (simp_all add: forceEverything_def)
qed

subsection \<open>C9: the parts to render are collected again after text rendering\<close>

text \<open>
  C9. When the root is connected and the text subsystem reports \<open>shouldRender()\<close>
  true (and its \<open>renderText\<close> returns), \<open>renderText\<close> of the View returns the list
  collected after text rendering: it is \<open>_getViewPartsToRender()\<close> of the state that
  text rendering left, and it holds exactly the parts that were dirty before or were
  made dirty by text rendering.
\<close>

theorem parts_recomputed_after_text:
  assumes "isConnected v" and "linesShouldRender v" and "\<not> linesRenderTextThrows v"
  shows "case rendering_renderText v of
           (Inr (Some (parts, ctx)), v') \<Rightarrow>
             parts = getViewPartsToRender v'
             \<and> set parts = {p. p < length (viewParts v)
                                \<and> (shouldRender (viewParts v ! p) \<or> p \<in> set (linesRenderTextScrolls v))}
         | _ \<Rightarrow> False"
  using assms
  by (auto simp: rendering_renderText_def viewLines_renderText_def viewLines_onDidRender_def
      Let_def set_getViewPartsToRender shouldRender_forceScrolled
      cong: getViewPartsToRender_cong)

text \<open>
  On the scrolling View, part 1 is not dirty before text rendering and is the one
  part of the list returned.
\<close>

theorem parts_recomputed_after_text_witness:
  "\<not> shouldRender (viewParts exScrollingView ! 1)
   \<and> (case rendering_renderText exScrollingView of
         (Inr (Some (parts, ctx)), v') \<Rightarrow> parts = getViewPartsToRender v' \<and> set parts = {1}
       | _ \<Rightarrow> False)"
proof -
  have a: "isConnected exScrollingView" "linesShouldRender exScrollingView"
    "\<not> linesRenderTextThrows exScrollingView"
    "\<not> shouldRender (viewParts exScrollingView ! 1)"
    by (simp_all add: exScrollingView_def exView_def exPart_def shouldRender_def)
  have b: "{p. p < length (viewParts exScrollingView)
              \<and> (shouldRender (viewParts exScrollingView ! p)
                  \<or> p \<in> set (linesRenderTextScrolls exScrollingView))} = {1}"
    by (auto simp: exScrollingView_def exView_def exPart_def shouldRender_def less_Suc_eq)
  show ?thesis
    using parts_recomputed_after_text [OF a(1-3)] a(4) unfolding b by simp
qed

subsection \<open>C7: methods of a disposed View\<close>

lemma isDisposed_view_dispose: "isDisposed (views (env (view_dispose i s)) i)"
  by (simp add: view_dispose_def setView_def Let_def)

lemma exScheduled_eval:
  "exScheduled =
     \<lparr>coordinatedRenderings = [\<lparr>renderingId = 0, window = 0, owner = 0\<rparr>],
      animationFrameRunners = [(0, 0)], requestedFrames = [(0, 0)], nextHandle = 1,
      unexpectedErrors = [], trace = [ScheduleCall \<lparr>renderingId = 0, window = 0, owner = 0\<rparr>],
      env = \<lparr>views = (\<lambda>i. exView)(0 := exView\<lparr>renderAnimationFrame :=
                 Some \<lparr>renderingId = 0, window = 0, owner = 0\<rparr>\<rparr>),
             renderingsCreated = 1\<rparr>\<rparr>"
  by (simp add: exScheduled_def view_scheduleRender_def newRendering_def exEditor_def exView_def
      initialCoordinator_def scheduleCoordinatedRendering_def coordinator_scheduleRender_def
      requestFrame_def Let_def)

lemma exDisposed_eval:
  "isDisposed (views (env exDisposed) 0)"
  "coordinatedRenderings exDisposed = []"
  "animationFrameRunners exDisposed = []"
  "requestedFrames exDisposed = []"
  by (simp_all add: exDisposed_def view_dispose_def view_scheduleRender_def newRendering_def exEditor_def
      exView_def initialCoordinator_def scheduleCoordinatedRendering_def
      coordinator_scheduleRender_def requestFrame_def disposeRendering_def cancelFrame_def
      setView_def Let_def)

text \<open>
  C7, as stated, fails: \<open>render(true, false)\<close> on a disposed View makes no
  disposal check; it runs the phases under \<open>safeInvokeNoArg\<close> and returns normally.
\<close>

theorem disposed_render_now_returns:
  "isDisposed (views (env exDisposed) 0)
   \<and> fst (view_render True False 0 exDisposed) = Inr ()"
  by (simp add: exDisposed_eval view_render_def)

text \<open>
  C7, amended. On a disposed View, \<open>scheduleRender\<close> raises \<open>BugIndicatingError\<close>
  at once and changes nothing, and \<open>render\<close> with \<open>now = false\<close> raises it to its
  caller with nothing registered at the coordinator.
\<close>

theorem disposed_scheduleRender_throws:
  assumes "isDisposed (views (env s) i)"
  shows "view_scheduleRender i s = (Inl BugIndicatingError, s)
       \<and> fst (view_render False everything i s) = Inl BugIndicatingError
       \<and> coordinatedRenderings (snd (view_render False everything i s)) = coordinatedRenderings s
       \<and> animationFrameRunners (snd (view_render False everything i s)) = animationFrameRunners s
       \<and> requestedFrames (snd (view_render False everything i s)) = requestedFrames s"
  using assms by (simp add: view_scheduleRender_def view_render_def Let_def)

text \<open>
  On the editor whose View 0 was disposed after scheduling.
\<close>

theorem disposed_scheduleRender_throws_witness:
  "view_scheduleRender 0 exDisposed = (Inl BugIndicatingError, exDisposed)
   \<and> fst (view_render False True 0 exDisposed) = Inl BugIndicatingError
   \<and> coordinatedRenderings (snd (view_render False True 0 exDisposed)) = []"
  using disposed_scheduleRender_throws [OF exDisposed_eval(1), of True] exDisposed_eval(2)
  by simp

subsection \<open>C3: a ViewPart that throws in \<open>prepareRender\<close>\<close>

lemma safeInvokeNoArg_onView:
  "safeInvokeNoArg (onView i f) s =
     (case f (views (env s) i) of
        (Inr x, v) \<Rightarrow> (Some x, setView i v s)
      | (Inl e, v) \<Rightarrow> (None, (setView i v s)\<lparr>unexpectedErrors := unexpectedErrors s @ [e]\<rparr>))"
  by (simp add: safeInvokeNoArg_def onView_def coordinatorCalls_run_def setView_def Let_def
      split: prod.splits sum.splits)

lemma prepareRenderParts_throw:
  assumes "\<forall>q \<in> set pre. \<not> (q < length (viewParts v) \<and> prepareRenderThrows (viewParts v ! q))"
    and "p < length (viewParts v)" and "prepareRenderThrows (viewParts v ! p)"
  shows "prepareRenderParts (pre @ p # post) v =
           (Inl (PartError p), v\<lparr>calls := calls v @ map PartPrepareRender (pre @ [p])\<rparr>)"
  using assms
proof (induction pre arbitrary: v)
  case Nil
  then show ?case by (simp add: noteCall_def)
next
  case (Cons a pre)
  have "prepareRenderParts (pre @ p # post) (noteCall (PartPrepareRender a) v) =
          (Inl (PartError p),
           (noteCall (PartPrepareRender a) v)
             \<lparr>calls := calls (noteCall (PartPrepareRender a) v) @ map PartPrepareRender (pre @ [p])\<rparr>)"
    using Cons.prems by (intro Cons.IH) simp_all
  then show ?case
    using Cons.prems by (auto simp: Let_def noteCall_def)
qed

lemma renderParts_returns:
  assumes "\<forall>q \<in> set ps. \<not> (q < length (viewParts v) \<and> renderThrows (viewParts v ! q))"
  shows "fst (renderParts ps v) = Inr ()
       \<and> calls (snd (renderParts ps v)) =
           calls v @ concat (map (\<lambda>q. [PartRender q, PartOnDidRender q]) ps)"
  using assms
proof (induction ps arbitrary: v)
  case Nil
  then show ?case by simp
next
  case (Cons p ps)
  let ?vc = "updatePart p onDidRender (noteCall (PartOnDidRender p) (noteCall (PartRender p) v))"
  have same: "\<forall>q \<in> set ps. \<not> (q < length (viewParts ?vc) \<and> renderThrows (viewParts ?vc ! q))"
    using Cons.prems by (auto simp: nth_updatePart onDidRender_def)
  show ?case
    using Cons.IH [OF same] Cons.prems by (simp add: Let_def)
qed

lemmas view_eval_defs =
  fireFrame_def runner_def cancelFrame_def onRenderScheduled_def frameDatas_def
  safeInvokeNoArg_def logCall_def coordinatorCalls_run_def viewCallbacks_def onView_def
  scheduled_prepareRenderText_def scheduled_renderText_def scheduled_prepareRender_def
  scheduled_render_def rendering_prepareRenderText_def rendering_renderText_def
  rendering_prepareRender_def rendering_render_def getViewPartsToRender_def
  viewLines_renderText_def viewLines_onDidRender_def noteCall_def updatePart_def
  shouldRender_def onDidRender_def forceShouldRender_def exView_def exPart_def Let_def

text \<open>
  C3, as stated, fails: exceptions are caught around the \<open>prepareRender\<close> of a
  whole rendering, not around each part, so the throw of a part ends the loop over the
  parts. In the frame of the example, the batch is parts 0 and 1, part 0 throws in
  \<open>prepareRender\<close>, and part 1 gets \<open>render\<close> and \<open>onDidRender\<close> but no
  \<open>prepareRender\<close>.
\<close>

theorem later_part_gets_no_prepareRender:
  "frameDatas viewCallbacks exScheduled = [Some ([0, 1], 5)]
   \<and> calls (views (env (fireFrame viewCallbacks 0 exScheduled)) 0) =
       [Entered PrepareRenderText, InputLatencyOnRenderStart,
        Entered RenderText, ContentWidgetsOnBeforeRender,
        Entered PrepareRender, PartPrepareRender 0,
        Entered Render, PartRender 0, PartOnDidRender 0, PartRender 1, PartOnDidRender 1]
   \<and> unexpectedErrors (fireFrame viewCallbacks 0 exScheduled) = [PartError 0]"
  by (simp add: exScheduled_eval view_eval_defs upt_rec)

text \<open>
  C3, amended. When a part \<open>p\<close> of the batch throws in \<open>prepareRender\<close> (the parts
  before it do not, and no part throws in \<open>render\<close>): the parts up to and including
  \<open>p\<close> have received \<open>prepareRender\<close>, the parts after \<open>p\<close> receive none in this
  frame, every part of the batch still receives \<open>render\<close> and \<open>onDidRender\<close>, and
  the error sink receives exactly one report, that of \<open>p\<close>.
\<close>

theorem part_failure_in_prepareRender:
  fixes s :: editor
  assumes "\<not> isDisposed (views (env s) (owner r))"
    and "\<forall>q \<in> set (pre @ p # post). q < length (viewParts (views (env s) (owner r)))"
    and "\<forall>q \<in> set pre. \<not> prepareRenderThrows (viewParts (views (env s) (owner r)) ! q)"
    and "prepareRenderThrows (viewParts (views (env s) (owner r)) ! p)"
    and "\<forall>q \<in> set (pre @ p # post). \<not> renderThrows (viewParts (views (env s) (owner r)) ! q)"
  shows "let d = (pre @ p # post, ctx);
             s1 = snd (safeInvokeNoArg (cb_prepareRender viewCallbacks r d) s);
             s2 = snd (safeInvokeNoArg (cb_render viewCallbacks r d) s1)
         in calls (views (env s2) (owner r)) =
              calls (views (env s) (owner r))
              @ [Entered PrepareRender] @ map PartPrepareRender (pre @ [p])
              @ [Entered Render] @ concat (map (\<lambda>q. [PartRender q, PartOnDidRender q]) (pre @ p # post))
            \<and> unexpectedErrors s2 = unexpectedErrors s @ [PartError p]"
proof -
  let ?v = "views (env s) (owner r)"
  let ?d = "(pre @ p # post, ctx)"
  let ?va = "noteCall (Entered PrepareRender) ?v"
  define vb where "vb = ?va\<lparr>calls := calls ?va @ map PartPrepareRender (pre @ [p])\<rparr>"
  have vb: "isDisposed vb = isDisposed ?v" "viewParts vb = viewParts ?v"
    "calls vb = calls ?v @ [Entered PrepareRender] @ map PartPrepareRender (pre @ [p])"
    by (simp_all add: vb_def)
  have "prepareRenderParts (pre @ p # post) ?va = (Inl (PartError p), vb)"
    unfolding vb_def by (rule prepareRenderParts_throw) (use assms(2-4) in simp_all)
  then have prep: "scheduled_prepareRender ?d ?v = (Inl (PartError p), vb)"
    using assms(1) by (simp add: scheduled_prepareRender_def rendering_prepareRender_def)
  define sa where "sa = snd (safeInvokeNoArg (cb_prepareRender viewCallbacks r ?d) s)"
  have s1: "sa = (setView (owner r) vb s)\<lparr>unexpectedErrors := unexpectedErrors s @ [PartError p]\<rparr>"
    by (simp add: sa_def viewCallbacks_def safeInvokeNoArg_onView prep)
  have v1: "views (env sa) (owner r) = vb"
    unfolding s1 by (simp add: setView_def)
  let ?w = "noteCall (Entered Render) vb"
  have quiet: "\<forall>q \<in> set (pre @ p # post). \<not> (q < length (viewParts ?w) \<and> renderThrows (viewParts ?w ! q))"
    using assms(5) by (simp add: vb)
  note rp = renderParts_returns [OF quiet]
  obtain res w' where rw: "renderParts (pre @ p # post) ?w = (res, w')"
    by (cases "renderParts (pre @ p # post) ?w")
  with rp have res: "res = Inr ()"
    and w': "calls w' = calls ?w @ concat (map (\<lambda>q. [PartRender q, PartOnDidRender q]) (pre @ p # post))"
    by simp_all
  have rend: "scheduled_render ?d vb = (Inr (), w')"
    using assms(1) rw res by (simp add: scheduled_render_def rendering_render_def vb)
  define sb where "sb = snd (safeInvokeNoArg (cb_render viewCallbacks r ?d) sa)"
  have s2: "sb = setView (owner r) w' sa"
    by (simp add: sb_def viewCallbacks_def safeInvokeNoArg_onView v1 rend)
  have "calls (views (env sb) (owner r)) =
          calls ?v @ [Entered PrepareRender] @ map PartPrepareRender (pre @ [p])
          @ [Entered Render] @ concat (map (\<lambda>q. [PartRender q, PartOnDidRender q]) (pre @ p # post))"
    unfolding s2 using w' by (simp add: vb)
  moreover have "unexpectedErrors sb = unexpectedErrors s @ [PartError p]"
    unfolding s2 by (simp add: s1)
  ultimately show ?thesis
    unfolding Let_def sb_def sa_def by blast
qed

lemma exScheduled_view:
  "\<not> isDisposed (views (env exScheduled) 0)"
  "viewParts (views (env exScheduled) 0) = [exPart True True False, exPart True False False]"
  "calls (views (env exScheduled) 0) = []"
  "unexpectedErrors exScheduled = []"
  "owner exRendering = 0"
  by (simp_all add: exScheduled_eval exRendering_def exView_def)

text \<open>
  On the scheduled editor, with the batch of parts 0 and 1 and context 5.
\<close>

theorem part_failure_in_prepareRender_witness:
  "(let d = ([0, 1], 5);
        s1 = snd (safeInvokeNoArg (cb_prepareRender viewCallbacks exRendering d) exScheduled);
        s2 = snd (safeInvokeNoArg (cb_render viewCallbacks exRendering d) s1)
    in calls (views (env s2) 0) =
         [Entered PrepareRender, PartPrepareRender 0,
          Entered Render, PartRender 0, PartOnDidRender 0, PartRender 1, PartOnDidRender 1]
       \<and> unexpectedErrors s2 = [PartError 0])"
proof -
  have h: "\<not> isDisposed (views (env exScheduled) (owner exRendering))"
    "\<forall>q \<in> set ([] @ 0 # [1]). q < length (viewParts (views (env exScheduled) (owner exRendering)))"
    "\<forall>q \<in> set []. \<not> prepareRenderThrows (viewParts (views (env exScheduled) (owner exRendering)) ! q)"
    "prepareRenderThrows (viewParts (views (env exScheduled) (owner exRendering)) ! 0)"
    "\<forall>q \<in> set ([] @ 0 # [1]). \<not> renderThrows (viewParts (views (env exScheduled) (owner exRendering)) ! q)"
    by (simp_all add: exScheduled_view exPart_def)
  show ?thesis
    using part_failure_in_prepareRender [OF h, of 5]
    by (simp add: exScheduled_view(3-5) Let_def)
qed

subsection \<open>What rendering now does to a View\<close>

lemma phasesEntered_append [simp]:
  "phasesEntered (cs @ ds) = phasesEntered cs @ phasesEntered ds"
  by (simp add: phasesEntered_def)

lemma phasesEntered_simps [simp]:
  "phasesEntered [] = []"
  "phasesEntered (Entered p # cs) = p # phasesEntered cs"
  "phasesEntered (PartPrepareRender q # cs) = phasesEntered cs"
  "phasesEntered (PartRender q # cs) = phasesEntered cs"
  "phasesEntered (PartOnDidRender q # cs) = phasesEntered cs"
  "phasesEntered (PartForceShouldRender q # cs) = phasesEntered cs"
  "phasesEntered (LinesForceShouldRender # cs) = phasesEntered cs"
  "phasesEntered (LinesRenderText # cs) = phasesEntered cs"
  "phasesEntered (LinesOnDidRender # cs) = phasesEntered cs"
  "phasesEntered (ContentWidgetsOnBeforeRender # cs) = phasesEntered cs"
  "phasesEntered (ComputeGlyphMarginLanes # cs) = phasesEntered cs"
  "phasesEntered (InputLatencyOnRenderStart # cs) = phasesEntered cs"
  by (simp_all add: phasesEntered_def)

lemma prepareRenderText_effect:
  "fst (rendering_prepareRenderText v) = Inr ()"
  "phasesEntered (calls (snd (rendering_prepareRenderText v))) = phasesEntered (calls v) @ [PrepareRenderText]"
  "isConnected (snd (rendering_prepareRenderText v)) = isConnected v"
  "linesShouldRender (snd (rendering_prepareRenderText v)) = linesShouldRender v"
  "linesRenderTextThrows (snd (rendering_prepareRenderText v)) = linesRenderTextThrows v"
  "viewParts (snd (rendering_prepareRenderText v)) = viewParts v"
  by (simp_all add: rendering_prepareRenderText_def Let_def)

lemma renderText_effect:
  "phasesEntered (calls (snd (rendering_renderText v))) = phasesEntered (calls v) @ [RenderText]"
  "(\<exists>d. fst (rendering_renderText v) = Inr (Some d)) \<longleftrightarrow> hasData v"
  by (auto simp: rendering_renderText_def viewLines_renderText_def viewLines_onDidRender_def
      hasData_def Let_def cong: getViewPartsToRender_cong)

lemma phasesEntered_prepareRenderParts:
  "phasesEntered (calls (snd (prepareRenderParts ps v))) = phasesEntered (calls v)"
  by (induction ps arbitrary: v) (simp_all add: Let_def)

lemma phasesEntered_renderParts:
  "phasesEntered (calls (snd (renderParts ps v))) = phasesEntered (calls v)"
  by (induction ps arbitrary: v) (simp_all add: Let_def)

lemma prepareRender_effect:
  "phasesEntered (calls (snd (rendering_prepareRender d v))) = phasesEntered (calls v) @ [PrepareRender]"
  by (simp add: rendering_prepareRender_def phasesEntered_prepareRenderParts)

lemma render_effect:
  "phasesEntered (calls (snd (rendering_render d v))) = phasesEntered (calls v) @ [Render]"
  by (simp add: rendering_render_def phasesEntered_renderParts)

lemma safeInvokeNoArg_onView_view:
  fixes s :: editor
  shows "views (env (snd (safeInvokeNoArg (onView i f) s))) i = snd (f (views (env s) i))"
    and "coordinatedRenderings (snd (safeInvokeNoArg (onView i f) s)) = coordinatedRenderings s"
    and "animationFrameRunners (snd (safeInvokeNoArg (onView i f) s)) = animationFrameRunners s"
    and "requestedFrames (snd (safeInvokeNoArg (onView i f) s)) = requestedFrames s"
  and "trace (snd (safeInvokeNoArg (onView i f) s)) = trace s"
  by (simp_all add: safeInvokeNoArg_onView setView_def split: prod.splits sum.splits)

lemma safeInvokeNoArg_onView_result:
  fixes s :: editor
  shows "fst (safeInvokeNoArg (onView i f) s) =
     (case fst (f (views (env s) i)) of Inl e \<Rightarrow> None | Inr x \<Rightarrow> Some x)"
  by (simp add: safeInvokeNoArg_onView split: prod.splits sum.splits)

lemma flush_coordinator:
  "coordinatedRenderings (flushAccumulatedAndRenderNow i s) = coordinatedRenderings s"
  "animationFrameRunners (flushAccumulatedAndRenderNow i s) = animationFrameRunners s"
  "requestedFrames (flushAccumulatedAndRenderNow i s) = requestedFrames s"
  "trace (flushAccumulatedAndRenderNow i s) = trace s"
  by (simp_all add: flushAccumulatedAndRenderNow_def Let_def split_def safeInvokeNoArg_onView_view
      split: option.splits)






lemma exEditor_view:
  "views (env exEditor) 0 = exView"
  "coordinatedRenderings exEditor = []"
  "requestedFrames exEditor = []"
  "isConnected exView" "\<not> linesRenderTextThrows exView" "calls exView = []"
  by (simp_all add: exEditor_def initialCoordinator_def exView_def)

subsection \<open>C8: a detached root\<close>

lemma env_safeInvokeNoArg_onView:
  "views (env (snd (safeInvokeNoArg (onView j f) s))) =
     (views (env s))(j := snd (f (views (env s) j)))"
  by (simp add: safeInvokeNoArg_def onView_def coordinatorCalls_run_def Let_def
      split: prod.splits sum.splits)

lemma env_logCall [simp]: "env (logCall p r a s) = env s"
  by (simp add: logCall_def)

lemma isConnected_prepareRenderParts [simp]:
  "isConnected (snd (prepareRenderParts ps v)) = isConnected v"
  by (induction ps arbitrary: v) (simp_all add: Let_def)

lemma isConnected_renderParts [simp]:
  "isConnected (snd (renderParts ps v)) = isConnected v"
  by (induction ps arbitrary: v) (simp_all add: Let_def)

lemma isConnected_scheduled [simp]:
  "isConnected (snd (scheduled_prepareRenderText v)) = isConnected v"
  "isConnected (snd (scheduled_renderText v)) = isConnected v"
  "isConnected (snd (scheduled_prepareRender d v)) = isConnected v"
  "isConnected (snd (scheduled_render d v)) = isConnected v"
  by (simp_all add: scheduled_prepareRenderText_def scheduled_renderText_def
      scheduled_prepareRender_def scheduled_render_def rendering_prepareRenderText_def
      rendering_renderText_def rendering_prepareRender_def rendering_render_def
      viewLines_renderText_def viewLines_onDidRender_def Let_def split_def)

lemma partCalls_append [simp]: "partCalls (cs @ ds) = partCalls cs @ partCalls ds"
  by (simp add: partCalls_def)

lemma partCalls_scheduled_text:
  "partCalls (calls (snd (scheduled_prepareRenderText v))) = partCalls (calls v)"
  "partCalls (calls (snd (scheduled_renderText v))) = partCalls (calls v)"
  by (simp_all add: scheduled_prepareRenderText_def scheduled_renderText_def
      rendering_prepareRenderText_def rendering_renderText_def
      viewLines_renderText_def viewLines_onDidRender_def Let_def split_def,
      simp_all add: partCalls_def)

lemma detached_renderText_null:
  "\<not> isConnected v \<Longrightarrow> fst (scheduled_renderText v) = Inr None \<or> fst (scheduled_renderText v) = Inl BugIndicatingError"
  by (simp add: scheduled_renderText_def rendering_renderText_def Let_def)

lemma detached_datas:
  fixes s :: editor
  assumes "\<not> isConnected (views (env s) j)"
  shows "\<forall>i < length rs. owner (rs ! i) = j \<longrightarrow> fst (renderTextLoop viewCallbacks rs s) ! i = None"
  using assms
proof (induction rs arbitrary: s)
  case Nil
  show ?case by simp
next
  case (Cons r rs)
  let ?inv = "safeInvokeNoArg (cb_renderText viewCallbacks r) (logCall RenderText r None s)"
  have views': "views (env (snd ?inv)) =
      (views (env s))(owner r := snd (scheduled_renderText (views (env s) (owner r))))"
    by (simp add: viewCallbacks_def env_safeInvokeNoArg_onView)
  have still: "\<not> isConnected (views (env (snd ?inv)) j)"
    using Cons.prems by (auto simp: views')
  have head: "owner r = j \<Longrightarrow> (case fst ?inv of None \<Rightarrow> None | Some d \<Rightarrow> d) = None"
    using detached_renderText_null [of "views (env s) j"] Cons.prems
    by (auto simp: viewCallbacks_def safeInvokeNoArg_def onView_def coordinatorCalls_run_def
        Let_def split: prod.splits sum.splits option.splits)
  show ?case
  proof (intro allI impI)
    fix i
    assume i: "i < length (r # rs)" and o: "owner ((r # rs) ! i) = j"
    show "fst (renderTextLoop viewCallbacks (r # rs) s) ! i = None"
    proof (cases i)
      case 0
      then show ?thesis using head o by (simp add: split_def Let_def)
    next
      case (Suc k)
      then show ?thesis
        using Cons.IH [OF still] i o by (simp add: split_def Let_def)
    qed
  qed
qed

lemma withData_zip_nth:
  "r \<in> set (withData (zip rs ds)) \<Longrightarrow> \<exists>i < length rs. i < length ds \<and> rs ! i = r \<and> ds ! i \<noteq> None"
  by (auto simp: withData_def set_zip)

lemma viewCallbacks_sel:
  "cb_prepareRenderText viewCallbacks r = onView (owner r) scheduled_prepareRenderText"
  "cb_renderText viewCallbacks r = onView (owner r) scheduled_renderText"
  "cb_prepareRender viewCallbacks r d = onView (owner r) (scheduled_prepareRender d)"
  "cb_render viewCallbacks r d = onView (owner r) (scheduled_render d)"
  by (simp_all add: viewCallbacks_def)

lemma isConnected_prepareRenderTextLoop:
  fixes s :: editor
  shows "isConnected (views (env (prepareRenderTextLoop viewCallbacks rs s)) j)
           = isConnected (views (env s) j)"
proof (induction rs arbitrary: s)
  case Nil
  show ?case by simp
next
  case (Cons r rs)
  show ?case
    by (simp add: Cons.IH viewCallbacks_sel env_safeInvokeNoArg_onView)
qed

lemma partCalls_prepareRenderTextLoop:
  fixes s :: editor
  shows "partCalls (calls (views (env (prepareRenderTextLoop viewCallbacks rs s)) j))
           = partCalls (calls (views (env s) j))"
proof (induction rs arbitrary: s)
  case Nil
  show ?case by simp
next
  case (Cons r rs)
  show ?case
    by (simp add: Cons.IH viewCallbacks_sel env_safeInvokeNoArg_onView partCalls_scheduled_text)
qed

lemma partCalls_renderTextLoop:
  fixes s :: editor
  shows "partCalls (calls (views (env (snd (renderTextLoop viewCallbacks rs s))) j))
           = partCalls (calls (views (env s) j))"
proof (induction rs arbitrary: s)
  case Nil
  show ?case by simp
next
  case (Cons r rs)
  show ?case
    by (simp add: Cons.IH split_def Let_def)
      (simp add: viewCallbacks_sel env_safeInvokeNoArg_onView partCalls_scheduled_text)
qed

lemma prepareRenderLoop_other:
  fixes s :: editor
  assumes "\<forall>q \<in> set ps. owner (fst q) = j \<longrightarrow> snd q = None"
  shows "views (env (prepareRenderLoop viewCallbacks ps s)) j = views (env s) j"
  using assms
  by (induction ps arbitrary: s)
    (auto simp: viewCallbacks_sel env_safeInvokeNoArg_onView split: option.splits)

lemma renderLoop_other:
  fixes s :: editor
  assumes "\<forall>q \<in> set ps. owner (fst q) = j \<longrightarrow> snd q = None"
  shows "views (env (renderLoop viewCallbacks ps s)) j = views (env s) j"
  using assms
  by (induction ps arbitrary: s)
    (auto simp: viewCallbacks_sel env_safeInvokeNoArg_onView split: option.splits)

lemma detached_frameDatas:
  fixes s :: editor
  assumes "\<not> isConnected (views (env s) j)"
  shows "\<forall>i < length (coordinatedRenderings s).
           owner (coordinatedRenderings s ! i) = j \<longrightarrow> frameDatas viewCallbacks s ! i = None"
  unfolding frameDatas_def
  by (rule detached_datas) (use assms in \<open>simp add: isConnected_prepareRenderTextLoop\<close>)

text \<open>
  C8. \<open>isConnected\<close> is state of the document that no function of the View writes,
  so a root that is detached when the frame callback starts is detached when
  \<open>renderText\<close> runs. For a rendering of the batch whose View has a detached root:
  its entry of \<open>datas\<close> is \<open>null\<close>, the coordinator calls neither its
  \<open>prepareRender\<close> nor its \<open>render\<close>, and no part of its View receives
  \<open>prepareRender\<close>, \<open>render\<close> or \<open>onDidRender\<close> in this frame. The frame callback
  \<open>onRenderScheduled\<close> has no error result: every call it makes goes through
  \<open>safeInvokeNoArg\<close>, so nothing propagates out of it.
\<close>

theorem detached_root_is_noop:
  fixes s :: editor
  assumes "r \<in> set (coordinatedRenderings s)"
    and "\<not> isConnected (views (env s) (owner r))"
  shows "(\<forall>i < length (coordinatedRenderings s).
            coordinatedRenderings s ! i = r \<longrightarrow> frameDatas viewCallbacks s ! i = None)
       \<and> r \<notin> set (visited PrepareRender (frameCalls viewCallbacks s))
       \<and> r \<notin> set (visited Render (frameCalls viewCallbacks s))
       \<and> partCalls (calls (views (env (onRenderScheduled viewCallbacks s)) (owner r)))
           = partCalls (calls (views (env s) (owner r)))"
proof -
  let ?rs = "coordinatedRenderings s"
  let ?ds = "frameDatas viewCallbacks s"
  have null: "\<forall>i < length ?rs. owner (?rs ! i) = owner r \<longrightarrow> ?ds ! i = None"
    using assms(2) by (rule detached_frameDatas)
  then have a: "\<forall>i < length ?rs. ?rs ! i = r \<longrightarrow> ?ds ! i = None"
    by auto
  have b: "r \<notin> set (withData (zip ?rs ?ds))"
    using a by (auto dest: withData_zip_nth)
  have skip: "\<forall>q \<in> set (zip ?rs ?ds). owner (fst q) = owner r \<longrightarrow> snd q = None"
    using null by (auto simp: set_zip)
  let ?sa = "prepareRenderTextLoop viewCallbacks ?rs (s\<lparr>coordinatedRenderings := []\<rparr>)"
  let ?sb = "snd (renderTextLoop viewCallbacks ?rs ?sa)"
  have run: "onRenderScheduled viewCallbacks s =
      renderLoop viewCallbacks (zip ?rs ?ds) (prepareRenderLoop viewCallbacks (zip ?rs ?ds) ?sb)"
    by (simp add: onRenderScheduled_def frameDatas_def Let_def split_def)
  have "views (env (onRenderScheduled viewCallbacks s)) (owner r) = views (env ?sb) (owner r)"
    unfolding run by (simp add: renderLoop_other [OF skip] prepareRenderLoop_other [OF skip])
  then have c: "partCalls (calls (views (env (onRenderScheduled viewCallbacks s)) (owner r)))
           = partCalls (calls (views (env s) (owner r)))"
    by (simp add: partCalls_renderTextLoop partCalls_prepareRenderTextLoop)
  show ?thesis
    using a b c by (simp add: frameCalls_eq visited_map visited_dataCalls)
qed

lemma exDetachedScheduled_eval:
  "coordinatedRenderings exDetachedScheduled = [exRendering]"
  "\<not> isConnected (views (env exDetachedScheduled) (owner exRendering))"
  "calls (views (env exDetachedScheduled) 0) = []"
  "owner exRendering = 0"
  by (simp_all add: exDetachedScheduled_def exScheduled_eval exRendering_def exView_def)

text \<open>
  On the editor whose View 0 was detached after scheduling.
\<close>

theorem detached_root_is_noop_witness:
  "frameDatas viewCallbacks exDetachedScheduled = [None]
   \<and> exRendering \<notin> set (visited PrepareRender (frameCalls viewCallbacks exDetachedScheduled))
   \<and> exRendering \<notin> set (visited Render (frameCalls viewCallbacks exDetachedScheduled))
   \<and> partCalls (calls (views (env (onRenderScheduled viewCallbacks exDetachedScheduled)) 0)) = []"
proof -
  have r: "exRendering \<in> set (coordinatedRenderings exDetachedScheduled)"
    by (simp add: exDetachedScheduled_eval)
  have len: "length (frameDatas viewCallbacks exDetachedScheduled) = 1"
    by (simp add: exDetachedScheduled_eval)
  note t = detached_root_is_noop [OF r exDetachedScheduled_eval(2)]
  from t have "frameDatas viewCallbacks exDetachedScheduled ! 0 = None"
    by (simp add: exDetachedScheduled_eval)
  with len have "frameDatas viewCallbacks exDetachedScheduled = [None]"
    by (cases "frameDatas viewCallbacks exDetachedScheduled") simp_all
  with t show ?thesis
    by (simp add: exDetachedScheduled_eval partCalls_def)
qed

subsection \<open>Pending renderings and the handles of the Views\<close>

text \<open>
  \<open>schedulingConsistent\<close> holds of a new coordinator and every operation keeps it.
\<close>

lemma env_coordinator_scheduleRender [simp]:
  "env (coordinator_scheduleRender w s) = env s"
  by (simp add: coordinator_scheduleRender_def requestFrame_def)

lemma env_scheduleCoordinatedRendering [simp]:
  "env (scheduleCoordinatedRendering r s) = env s"
  by (simp add: scheduleCoordinatedRendering_def)

lemma scheduleRender_pending:
  "\<not> isDisposed (views (env s) i) \<Longrightarrow> renderAnimationFrame (views (env s) i) = Some r \<Longrightarrow>
     view_scheduleRender i s = (Inr (), s)"
  by (simp add: view_scheduleRender_def Let_def)

lemma scheduleRender_first:
  assumes "\<not> isDisposed (views (env s) i)" and "renderAnimationFrame (views (env s) i) = None"
  shows "fst (view_scheduleRender i s) = Inr ()"
    and "coordinatedRenderings (snd (view_scheduleRender i s)) = coordinatedRenderings s @ [newRendering i s]"
    and "views (env (snd (view_scheduleRender i s))) =
           (views (env s))(i := (views (env s) i)\<lparr>renderAnimationFrame := Some (newRendering i s)\<rparr>)"
  using assms by (simp_all add: view_scheduleRender_def newRendering_def Let_def)

lemma no_pending_of_idle_view:
  "schedulingConsistent s \<Longrightarrow> renderAnimationFrame (views (env s) i) = None \<Longrightarrow>
     r \<in> set (coordinatedRenderings s) \<Longrightarrow> owner r \<noteq> i"
  by (auto simp: schedulingConsistent_def list_all_iff)

lemma schedulingConsistent_scheduleRender:
  assumes "schedulingConsistent s"
  shows "schedulingConsistent (snd (view_scheduleRender i s))"
proof (cases "\<not> isDisposed (views (env s) i) \<and> renderAnimationFrame (views (env s) i) = None")
  case True
  then have d: "\<not> isDisposed (views (env s) i)" and n: "renderAnimationFrame (views (env s) i) = None"
    by simp_all
  have other: "\<forall>r \<in> set (coordinatedRenderings s). owner r \<noteq> i"
    using no_pending_of_idle_view [OF assms n] by blast
  have o: "owner (newRendering i s) = i"
    by (simp add: newRendering_def)
  show ?thesis
    using assms other o
    unfolding schedulingConsistent_def scheduleRender_first(2,3) [OF d n] list_all_iff
    by auto
next
  case False
  then have "snd (view_scheduleRender i s) = s"
    by (auto simp: view_scheduleRender_def Let_def)
  then show ?thesis using assms by simp
qed

lemma scheduleRender_repeated:
  assumes "\<not> isDisposed (views (env s) i)" and "renderAnimationFrame (views (env s) i) = None"
  shows "((\<lambda>t. snd (view_scheduleRender i t)) ^^ Suc n) s = snd (view_scheduleRender i s)"
proof (induction n)
  case 0
  show ?case by simp
next
  case (Suc n)
  let ?s1 = "snd (view_scheduleRender i s)"
  have "\<not> isDisposed (views (env ?s1) i)"
    "renderAnimationFrame (views (env ?s1) i) = Some (newRendering i s)"
    using assms by (simp_all add: scheduleRender_first(3) [OF assms])
  then have "view_scheduleRender i ?s1 = (Inr (), ?s1)"
    by (rule scheduleRender_pending)
  with Suc show ?case by simp
qed

lemma exEditor_idle:
  "schedulingConsistent exEditor"
  "\<not> isDisposed (views (env exEditor) 0)"
  "renderAnimationFrame (views (env exEditor) 0) = None"
  "newRendering 0 exEditor = exRendering"
  by (simp_all add: schedulingConsistent_def exEditor_def initialCoordinator_def exView_def
      newRendering_def exRendering_def)

lemma schedulingConsistent_initial:
  "schedulingConsistent (initialCoordinator e)"
  by (simp add: schedulingConsistent_def initialCoordinator_def)

lemma env_cancelFrames [simp]:
  "env (foldl (\<lambda>t p. cancelFrame (snd p) t) s ps) = env s"
  by (induction ps arbitrary: s) (simp_all add: cancelFrame_def)

lemma env_disposeRendering [simp]: "env (disposeRendering r s) = env s"
  by (simp add: disposeRendering_def Let_def)

lemma coordinatedRenderings_disposeRendering:
  "coordinatedRenderings (disposeRendering r s) = remove1 r (coordinatedRenderings s)"
  by (simp add: disposeRendering_def Let_def remove1_idem)

lemma schedulingConsistent_dispose:
  assumes "schedulingConsistent s"
  shows "schedulingConsistent (view_dispose i s)"
proof (cases "renderAnimationFrame (views (env s) i)")
  case None
  then have "\<forall>r \<in> set (coordinatedRenderings s). owner r \<noteq> i"
    using no_pending_of_idle_view [OF assms] by blast
  then show ?thesis
    using assms None
    by (auto simp: schedulingConsistent_def view_dispose_def list_all_iff)
next
  case (Some r)
  have "\<forall>q \<in> set (remove1 r (coordinatedRenderings s)). owner q \<noteq> i"
    using assms Some by (auto simp: schedulingConsistent_def list_all_iff)
  then show ?thesis
    using assms Some
    by (auto simp: schedulingConsistent_def view_dispose_def list_all_iff
        coordinatedRenderings_disposeRendering dest: notin_set_remove1)
qed

lemma renderAnimationFrame_prepareRenderParts [simp]:
  "renderAnimationFrame (snd (prepareRenderParts ps v)) = renderAnimationFrame v"
  by (induction ps arbitrary: v) (simp_all add: Let_def)

lemma renderAnimationFrame_renderParts [simp]:
  "renderAnimationFrame (snd (renderParts ps v)) = renderAnimationFrame v"
  by (induction ps arbitrary: v) (simp_all add: Let_def)

lemma renderAnimationFrame_rendering [simp]:
  "renderAnimationFrame (snd (rendering_prepareRenderText v)) = renderAnimationFrame v"
  "renderAnimationFrame (snd (rendering_renderText v)) = renderAnimationFrame v"
  "renderAnimationFrame (snd (rendering_prepareRender d v)) = renderAnimationFrame v"
  "renderAnimationFrame (snd (rendering_render d v)) = renderAnimationFrame v"
  by (simp_all add: rendering_prepareRenderText_def
      rendering_renderText_def rendering_prepareRender_def rendering_render_def
      viewLines_renderText_def viewLines_onDidRender_def Let_def split_def)

lemma schedulingConsistent_step:
  fixes s :: editor
  assumes "schedulingConsistent s"
    and "\<And>v. renderAnimationFrame (snd (f v)) = renderAnimationFrame v"
  shows "schedulingConsistent (snd (safeInvokeNoArg (onView i f) s))"
  using assms
  by (auto simp: schedulingConsistent_def list_all_iff safeInvokeNoArg_onView_view(2)
      env_safeInvokeNoArg_onView)

lemma schedulingConsistent_flush:
  assumes "schedulingConsistent s"
  shows "schedulingConsistent (flushAccumulatedAndRenderNow i s)"
  using assms
  by (auto simp: flushAccumulatedAndRenderNow_def Let_def split_def
      intro!: schedulingConsistent_step split: option.splits)

lemma schedulingConsistent_setView:
  "schedulingConsistent s \<Longrightarrow> renderAnimationFrame v = renderAnimationFrame (views (env s) i) \<Longrightarrow>
     schedulingConsistent (setView i v s)"
  by (auto simp: schedulingConsistent_def list_all_iff)

lemma schedulingConsistent_render:
  assumes "schedulingConsistent s"
  shows "schedulingConsistent (snd (view_render now everything i s))"
proof -
  let ?s1 = "if everything then setView i (forceEverything (views (env s) i)) s else s"
  have "schedulingConsistent ?s1"
    using assms by (simp add: schedulingConsistent_setView)
  then show ?thesis
    by (simp add: view_render_def Let_def schedulingConsistent_flush
        schedulingConsistent_scheduleRender)
qed

lemma coordinatedRenderings_logCall [simp]:
  "coordinatedRenderings (logCall p r a s) = coordinatedRenderings s"
  by (simp add: logCall_def)

lemma no_pending_after_frame:
  fixes s :: editor
  shows "coordinatedRenderings (onRenderScheduled viewCallbacks s) = []"
  by (rule onRenderScheduled_preserves [where I = "\<lambda>t. coordinatedRenderings t = []"])
    (simp_all add: viewCallbacks_sel safeInvokeNoArg_onView_view(2))

lemma schedulingConsistent_fireFrame:
  assumes "schedulingConsistent s"
  shows "schedulingConsistent (fireFrame viewCallbacks h s)"
proof (cases "map_of (requestedFrames s) h")
  case None
  then show ?thesis using assms by (simp add: fireFrame_def)
next
  case (Some w)
  then show ?thesis
    by (simp add: fireFrame_def runner_def schedulingConsistent_def no_pending_after_frame)
qed

section \<open>The calls that the closures receive\<close>

subsection \<open>Recording changes nothing\<close>

lemma withEnv_sel [simp]:
  "coordinatedRenderings (withEnv e s) = coordinatedRenderings s"
  "animationFrameRunners (withEnv e s) = animationFrameRunners s"
  "requestedFrames (withEnv e s) = requestedFrames s"
  "nextHandle (withEnv e s) = nextHandle s"
  "unexpectedErrors (withEnv e s) = unexpectedErrors s"
  "trace (withEnv e s) = trace s"
  "env (withEnv e s) = e"
  by (simp_all add: withEnv_def)

lemma withEnv_withEnv [simp]: "withEnv e (withEnv e' s) = withEnv e s"
  by (simp add: withEnv_def)

lemma withEnv_same [simp]: "withEnv (env s) s = s"
  by (simp add: withEnv_def)

lemma env_update_withEnv: "s\<lparr>env := e\<rparr> = withEnv e s"
  by (simp add: withEnv_def)

lemma withEnv_updates:
  "(withEnv e s)\<lparr>unexpectedErrors := x\<rparr> = withEnv e (s\<lparr>unexpectedErrors := x\<rparr>)"
  "(withEnv e s)\<lparr>coordinatedRenderings := y\<rparr> = withEnv e (s\<lparr>coordinatedRenderings := y\<rparr>)"
  "(withEnv e s)\<lparr>animationFrameRunners := z\<rparr> = withEnv e (s\<lparr>animationFrameRunners := z\<rparr>)"
  by (simp_all add: withEnv_def)

lemma withEnv_coordinator_scheduleRender:
  "coordinator_scheduleRender w (withEnv e s) = withEnv e (coordinator_scheduleRender w s)"
  by (simp add: coordinator_scheduleRender_def requestFrame_def withEnv_def)

lemma withEnv_schedule:
  "scheduleCoordinatedRendering r (withEnv e s) = withEnv e (scheduleCoordinatedRendering r s)"
  by (simp add: scheduleCoordinatedRendering_def withEnv_coordinator_scheduleRender [symmetric])
    (simp add: withEnv_def)

lemma withEnv_cancelFrames:
  "foldl (\<lambda>t p. cancelFrame (snd p) t) (withEnv e s) ps
     = withEnv e (foldl (\<lambda>t p. cancelFrame (snd p) t) s ps)"
proof (induction ps arbitrary: s)
  case Nil
  show ?case by simp
next
  case (Cons p ps)
  have "cancelFrame (snd p) (withEnv e s) = withEnv e (cancelFrame (snd p) s)"
    by (simp add: cancelFrame_def withEnv_def)
  then show ?case by (simp add: Cons.IH)
qed

lemma withEnv_dispose:
  "disposeRendering r (withEnv e s) = withEnv e (disposeRendering r s)"
proof -
  have t: "(withEnv e s)\<lparr>trace := x\<rparr> = withEnv e (s\<lparr>trace := x\<rparr>)" for x
    by (simp add: withEnv_def)
  show ?thesis
    by (simp add: disposeRendering_def Let_def t withEnv_updates withEnv_cancelFrames)
qed

lemma withEnv_performCall: "performCall c (withEnv e s) = withEnv e (performCall c s)"
  by (cases c) (simp_all add: withEnv_schedule withEnv_dispose)

lemma withEnv_calls:
  "coordinatorCalls_run cs (withEnv e s) = withEnv e (coordinatorCalls_run cs s)"
  unfolding coordinatorCalls_run_def
  by (induction cs arbitrary: s) (simp_all add: withEnv_performCall)

lemma withEnv_logCall: "logCall p r a (withEnv e s) = withEnv e (logCall p r a s)"
  by (simp add: logCall_def withEnv_def)

lemma env_calls [simp]: "env (coordinatorCalls_run cs s) = env s"
proof -
  have "env (performCall c t) = env t" for c and t :: "('a, 'b) coordinator"
  proof (cases c)
    case (CallSchedule r)
    then show ?thesis
      by (simp add: scheduleCoordinatedRendering_def coordinator_scheduleRender_def requestFrame_def)
  next
    case (CallDispose r)
    have "env (foldl (\<lambda>t p. cancelFrame (snd p) t) u ps) = env u"
      for ps :: "('c \<times> handle) list" and u :: "('a, 'b) coordinator"
      by (induction ps arbitrary: u) (simp_all add: cancelFrame_def)
    with CallDispose show ?thesis
      by (simp add: disposeRendering_def Let_def)
  qed
  then show ?thesis
    unfolding coordinatorCalls_run_def by (induction cs arbitrary: s) simp_all
qed

lemma safeInvokeNoArg_recording:
  "safeInvokeNoArg (recordingClosure c f) s =
     (fst (safeInvokeNoArg f (stopRecording s)),
      withEnv (env (snd (safeInvokeNoArg f (stopRecording s))),
               snd (env s) @ [(c, coordinatorCalls (f (fst (env s))))])
        (snd (safeInvokeNoArg f (stopRecording s))))"
  by (simp add: safeInvokeNoArg_def recordingClosure_def stopRecording_def Let_def
      env_update_withEnv withEnv_calls withEnv_updates split: sum.splits)

lemma recording_step:
  "fst (safeInvokeNoArg (recordingClosure c f) s) = fst (safeInvokeNoArg f (stopRecording s))"
  "stopRecording (snd (safeInvokeNoArg (recordingClosure c f) s))
     = snd (safeInvokeNoArg f (stopRecording s))"
  "snd (env (snd (safeInvokeNoArg (recordingClosure c f) s)))
     = snd (env s) @ [(c, coordinatorCalls (f (fst (env s))))]"
  by (simp_all add: safeInvokeNoArg_recording stopRecording_def)

lemma stopRecording_logCall: "stopRecording (logCall p r a s) = logCall p r a (stopRecording s)"
  by (simp add: stopRecording_def withEnv_logCall [symmetric] logCall_def)

lemma recorded_logCall [simp]: "snd (env (logCall p r a s)) = snd (env s)"
  by (simp add: logCall_def)

lemma recording_sel:
  "cb_prepareRenderText (recording cbs) r
     = recordingClosure (PrepareRenderText, r, None) (cb_prepareRenderText cbs r)"
  "cb_renderText (recording cbs) r = recordingClosure (RenderText, r, None) (cb_renderText cbs r)"
  "cb_prepareRender (recording cbs) r d
     = recordingClosure (PrepareRender, r, Some d) (cb_prepareRender cbs r d)"
  "cb_render (recording cbs) r d = recordingClosure (Render, r, Some d) (cb_render cbs r d)"
  by (simp_all add: recording_def)

lemma stopRecording_prepareRenderTextLoop:
  "stopRecording (prepareRenderTextLoop (recording cbs) rs s)
     = prepareRenderTextLoop cbs rs (stopRecording s)"
  by (induction rs arbitrary: s)
    (simp_all add: recording_sel recording_step stopRecording_logCall)

lemma renderTextLoop_recording:
  "fst (renderTextLoop (recording cbs) rs s) = fst (renderTextLoop cbs rs (stopRecording s))
   \<and> stopRecording (snd (renderTextLoop (recording cbs) rs s))
       = snd (renderTextLoop cbs rs (stopRecording s))"
  by (induction rs arbitrary: s)
    (simp_all add: recording_sel recording_step stopRecording_logCall split_def Let_def)

lemma stopRecording_prepareRenderLoop:
  "stopRecording (prepareRenderLoop (recording cbs) ps s)
     = prepareRenderLoop cbs ps (stopRecording s)"
  by (induction ps arbitrary: s)
    (simp_all add: recording_sel recording_step stopRecording_logCall split: option.splits)

lemma stopRecording_renderLoop:
  "stopRecording (renderLoop (recording cbs) ps s) = renderLoop cbs ps (stopRecording s)"
  by (induction ps arbitrary: s)
    (simp_all add: recording_sel recording_step stopRecording_logCall split: option.splits)

lemma stopRecording_emptied:
  "stopRecording (s\<lparr>coordinatedRenderings := []\<rparr>) = (stopRecording s)\<lparr>coordinatedRenderings := []\<rparr>"
  by (simp add: stopRecording_def withEnv_def)

lemma coordinatedRenderings_stopRecording [simp]:
  "coordinatedRenderings (stopRecording s) = coordinatedRenderings s"
  by (simp add: stopRecording_def)

lemma frameDatas_recording:
  "frameDatas (recording cbs) s = frameDatas cbs (stopRecording s)"
  by (simp add: frameDatas_def renderTextLoop_recording stopRecording_prepareRenderTextLoop
      stopRecording_emptied)

lemma stopRecording_onRenderScheduled:
  "stopRecording (onRenderScheduled (recording cbs) s) = onRenderScheduled cbs (stopRecording s)"
  by (simp add: onRenderScheduled_def Let_def split_def stopRecording_renderLoop
      stopRecording_prepareRenderLoop renderTextLoop_recording
      stopRecording_prepareRenderTextLoop stopRecording_emptied)

lemma stopRecording_startRecording [simp]: "stopRecording (startRecording s) = s"
  by (simp add: stopRecording_def startRecording_def)

lemma invocations_step:
  "invocations (snd (safeInvokeNoArg (recordingClosure c f) (logCall p r a s)))
     = invocations s @ [c]"
  by (simp add: invocations_def recording_step)

lemma invocations_prepareRenderTextLoop:
  "invocations (prepareRenderTextLoop (recording cbs) rs s)
     = invocations s @ map (\<lambda>r. (PrepareRenderText, r, None)) rs"
  by (induction rs arbitrary: s) (simp_all add: recording_sel invocations_step)

lemma invocations_renderTextLoop:
  "invocations (snd (renderTextLoop (recording cbs) rs s))
     = invocations s @ map (\<lambda>r. (RenderText, r, None)) rs"
  by (induction rs arbitrary: s) (simp_all add: recording_sel invocations_step split_def Let_def)

lemma invocations_prepareRenderLoop:
  "invocations (prepareRenderLoop (recording cbs) ps s)
     = invocations s @ dataCalls PrepareRender ps"
  by (induction ps arbitrary: s)
    (simp_all add: recording_sel invocations_step dataCalls_def split: option.splits)

lemma invocations_renderLoop:
  "invocations (renderLoop (recording cbs) ps s) = invocations s @ dataCalls Render ps"
  by (induction ps arbitrary: s)
    (simp_all add: recording_sel invocations_step dataCalls_def split: option.splits)

lemma invocations_emptied [simp]:
  "invocations (s\<lparr>coordinatedRenderings := []\<rparr>) = invocations s"
  by (simp add: invocations_def)

lemma invocations_onRenderScheduled:
  "invocations (onRenderScheduled (recording cbs) s) =
     invocations s
     @ map (\<lambda>r. (PrepareRenderText, r, None)) (coordinatedRenderings s)
     @ map (\<lambda>r. (RenderText, r, None)) (coordinatedRenderings s)
     @ dataCalls PrepareRender (zip (coordinatedRenderings s) (frameDatas (recording cbs) s))
     @ dataCalls Render (zip (coordinatedRenderings s) (frameDatas (recording cbs) s))"
  by (simp add: onRenderScheduled_def frameDatas_def Let_def split_def invocations_renderLoop
      invocations_prepareRenderLoop invocations_renderTextLoop invocations_prepareRenderTextLoop)

lemma invocations_frame:
  "invocations (onRenderScheduled (recording cbs) (startRecording s)) =
     map (\<lambda>r. (PrepareRenderText, r, None)) (coordinatedRenderings s)
     @ map (\<lambda>r. (RenderText, r, None)) (coordinatedRenderings s)
     @ dataCalls PrepareRender (zip (coordinatedRenderings s) (frameDatas cbs s))
     @ dataCalls Render (zip (coordinatedRenderings s) (frameDatas cbs s))"
  by (simp add: invocations_onRenderScheduled frameDatas_recording)
    (simp add: invocations_def startRecording_def)

lemmas frame_eval_defs =
  fireFrame_def runner_def cancelFrame_def onRenderScheduled_def frameDatas_def
  safeInvokeNoArg_def logCall_def coordinatorCalls_run_def scheduleCoordinatedRendering_def
  coordinator_scheduleRender_def requestFrame_def disposeRendering_def
  recording_def recordingClosure_def startRecording_def stopRecording_def withEnv_def
  invocations_def callsMade_def initialCoordinator_def exCallbacks_def exR_def Let_def

subsection \<open>C1: the order of the phases\<close>

text \<open>
  C1. Whatever the closures do, one run of the frame callback calls them in phase
  order: in the list of the calls that the closures received, the phases never go
  backwards, so every \<open>prepareRenderText\<close> call has completed before any
  \<open>renderText\<close> call begins, these before any \<open>prepareRender\<close> call, and these
  before any \<open>render\<close> call. In the first two phases the renderings called are the
  registered ones in registration order; in the last two they are those with data,
  again in registration order (a subsequence of the registered ones). Recording the
  calls leaves the run as it is.
\<close>

theorem phase_ordering:
  "let s' = onRenderScheduled (recording cbs) (startRecording s)
   in stopRecording s' = onRenderScheduled cbs s
      \<and> sorted_wrt (\<lambda>a b. phaseRank (fst a) \<le> phaseRank (fst b)) (invocations s')
      \<and> visited PrepareRenderText (invocations s') = coordinatedRenderings s
      \<and> visited RenderText (invocations s') = coordinatedRenderings s
      \<and> visited PrepareRender (invocations s')
          = withData (zip (coordinatedRenderings s) (frameDatas cbs s))
      \<and> visited Render (invocations s')
          = withData (zip (coordinatedRenderings s) (frameDatas cbs s))
      \<and> subseq (visited PrepareRender (invocations s')) (coordinatedRenderings s)
      \<and> subseq (visited Render (invocations s')) (coordinatedRenderings s)"
proof -
  let ?rs = "coordinatedRenderings s"
  let ?ps = "zip ?rs (frameDatas cbs s)"
  let ?inv = "invocations (onRenderScheduled (recording cbs) (startRecording s))"
  have same: "stopRecording (onRenderScheduled (recording cbs) (startRecording s))
                = onRenderScheduled cbs s"
    by (simp add: stopRecording_onRenderScheduled)
  have ordered: "sorted_wrt (\<lambda>a b. phaseRank (fst a) \<le> phaseRank (fst b)) ?inv"
  proof -
    have b: "sorted_wrt (\<lambda>a b. phaseRank (fst a) \<le> phaseRank (fst b)) (dataCalls p ?ps)" for p
      by (rule sorted_same_phase) (auto dest: fst_dataCalls)
    show ?thesis
      unfolding invocations_frame
      by (auto simp: sorted_wrt_append sorted_phase_map b dest!: fst_dataCalls)
  qed
  have v: "visited PrepareRenderText ?inv = ?rs"
    "visited RenderText ?inv = ?rs"
    "visited PrepareRender ?inv = withData ?ps"
    "visited Render ?inv = withData ?ps"
    by (simp_all add: invocations_frame visited_map visited_dataCalls)
  show ?thesis
    unfolding Let_def
    using same ordered v subseq_withData_zip [of ?rs "frameDatas cbs s"] by simp
qed

lemma exState_invocations:
  "invocations (onRenderScheduled (recording exCallbacks) (startRecording exState)) =
     [(PrepareRenderText, exR 1 0, None), (PrepareRenderText, exR 2 0, None),
      (PrepareRenderText, exR 3 1, None),
      (RenderText, exR 1 0, None), (RenderText, exR 2 0, None), (RenderText, exR 3 1, None),
      (PrepareRender, exR 1 0, Some 10), (PrepareRender, exR 2 0, Some 20),
      (Render, exR 1 0, Some 10), (Render, exR 2 0, Some 20)]"
  by (simp add: exState_def frame_eval_defs)

text \<open>The run on the concrete input, evaluated: ten calls, in four blocks.\<close>

theorem phase_ordering_witness:
  "sorted_wrt (\<lambda>a b. phaseRank (fst a) \<le> phaseRank (fst b))
     (invocations (onRenderScheduled (recording exCallbacks) (startRecording exState)))
   \<and> visited PrepareRenderText
         (invocations (onRenderScheduled (recording exCallbacks) (startRecording exState)))
       = [exR 1 0, exR 2 0, exR 3 1]
   \<and> visited RenderText
         (invocations (onRenderScheduled (recording exCallbacks) (startRecording exState)))
       = [exR 1 0, exR 2 0, exR 3 1]
   \<and> visited PrepareRender
         (invocations (onRenderScheduled (recording exCallbacks) (startRecording exState)))
       = [exR 1 0, exR 2 0]
   \<and> visited Render
         (invocations (onRenderScheduled (recording exCallbacks) (startRecording exState)))
       = [exR 1 0, exR 2 0]"
proof -
  have v: "visited PrepareRender
         (invocations (onRenderScheduled (recording exCallbacks) (startRecording exState)))
       = [exR 1 0, exR 2 0]"
    "visited Render
         (invocations (onRenderScheduled (recording exCallbacks) (startRecording exState)))
       = [exR 1 0, exR 2 0]"
    by (simp_all add: exState_invocations visited_def)
  have rs: "coordinatedRenderings exState = [exR 1 0, exR 2 0, exR 3 1]"
    by (simp add: exState_def)
  show ?thesis
    using phase_ordering [of exCallbacks exState] v rs unfolding Let_def by simp
qed

subsection \<open>C10: a failed \<open>prepareRender\<close> does not skip \<open>render\<close>\<close>

text \<open>
  C10. Whatever the closures do (throwing in \<open>prepareRender\<close> included): a rendering
  of the batch whose \<open>renderText\<close> gave data \<open>d\<close> has its \<open>prepareRender\<close> closure
  and its \<open>render\<close> closure called, both with this \<open>d\<close>, that is with the same
  ViewPart list and context; and the renderings whose \<open>render\<close> is called are those
  whose \<open>prepareRender\<close> was called, in the same order.
\<close>

theorem render_not_skipped:
  assumes "i < length (coordinatedRenderings s)"
    and "frameDatas cbs s ! i = Some d"
  shows "let s' = onRenderScheduled (recording cbs) (startRecording s)
         in stopRecording s' = onRenderScheduled cbs s
            \<and> (PrepareRender, coordinatedRenderings s ! i, Some d) \<in> set (invocations s')
            \<and> (Render, coordinatedRenderings s ! i, Some d) \<in> set (invocations s')
            \<and> visited Render (invocations s') = visited PrepareRender (invocations s')"
proof -
  have len: "i < length (frameDatas cbs s)"
    using assms(1) by simp
  show ?thesis
    unfolding Let_def
    using dataCalls_nth [OF assms(1) len assms(2)]
    by (simp add: invocations_frame stopRecording_onRenderScheduled visited_map visited_dataCalls)
qed

lemma exState_frame:
  "frameDatas exCallbacks exState = [Some 10, Some 20, None]"
  "unexpectedErrors (onRenderScheduled exCallbacks exState) = [ExternalError 2, ExternalError 10]"
  "coordinatedRenderings exState ! 0 = exR 1 0"
  "0 < length (coordinatedRenderings exState)"
  by (simp_all add: exState_def frame_eval_defs)

text \<open>
  In the frame of the concrete input, \<open>prepareRender\<close> of rendering 1 throws (the
  sink holds its error, after that of rendering 2) and its \<open>render\<close> closure is
  called with the data of its \<open>renderText\<close>.
\<close>

theorem render_not_skipped_witness:
  "unexpectedErrors (onRenderScheduled exCallbacks exState) = [ExternalError 2, ExternalError 10]
   \<and> (PrepareRender, exR 1 0, Some 10)
       \<in> set (invocations (onRenderScheduled (recording exCallbacks) (startRecording exState)))
   \<and> (Render, exR 1 0, Some 10)
       \<in> set (invocations (onRenderScheduled (recording exCallbacks) (startRecording exState)))"
  using render_not_skipped [of 0 exState exCallbacks 10] exState_frame
  unfolding Let_def by simp

subsection \<open>C2: the batch of a frame\<close>









lemma callsMade_logCall [simp]: "callsMade (logCall p r a s) = callsMade s"
  by (simp add: callsMade_def)



lemma startRecording_runners:
  "(startRecording s)\<lparr>animationFrameRunners := x\<rparr>
     = startRecording (s\<lparr>animationFrameRunners := x\<rparr>)"
  by (simp add: startRecording_def withEnv_def)

lemma runner_recording:
  "runner w (recording cbs) (startRecording s) =
     onRenderScheduled (recording cbs)
       (startRecording (s\<lparr>animationFrameRunners :=
          filter (\<lambda>p. fst p \<noteq> w) (animationFrameRunners s)\<rparr>))"
  by (simp add: runner_def startRecording_runners)
    (simp add: startRecording_def)







section \<open>Scheduling a View and rendering it now\<close>

subsection \<open>A frame, seen from one View\<close>

lemma prepareRenderTextLoop_view:
  fixes s :: editor
  shows "views (env (prepareRenderTextLoop viewCallbacks rs s)) i =
     foldl (\<lambda>v q. snd (scheduled_prepareRenderText v)) (views (env s) i)
       (filter (\<lambda>q. owner q = i) rs)"
  by (induction rs arbitrary: s) (simp_all add: viewCallbacks_sel env_safeInvokeNoArg_onView)

lemma renderTextLoop_view:
  fixes s :: editor
  shows "views (env (snd (renderTextLoop viewCallbacks rs s))) i =
     foldl (\<lambda>v q. snd (scheduled_renderText v)) (views (env s) i)
       (filter (\<lambda>q. owner q = i) rs)"
  by (induction rs arbitrary: s)
    (simp_all add: split_def Let_def viewCallbacks_sel env_safeInvokeNoArg_onView)

lemma filter_zip_none:
  "filter P xs = [] \<Longrightarrow> filter (\<lambda>q. P (fst q)) (zip xs ys) = []"
  by (auto simp: filter_empty_conv dest: set_zip_leftD)

lemma renderTextLoop_data:
  fixes s :: editor
  assumes "filter (\<lambda>q. owner q = i) rs = [r]"
  shows "filter (\<lambda>q. owner (fst q) = i) (zip rs (fst (renderTextLoop viewCallbacks rs s))) =
     [(r, case fst (scheduled_renderText (views (env s) i)) of Inl e \<Rightarrow> None | Inr d \<Rightarrow> d)]"
  using assms
proof (induction rs arbitrary: s)
  case Nil
  then show ?case by simp
next
  case (Cons a rs)
  let ?inv = "safeInvokeNoArg (cb_renderText viewCallbacks a) (logCall RenderText a None s)"
  show ?case
  proof (cases "owner a = i")
    case True
    with Cons.prems have a: "a = r" and rest: "filter (\<lambda>q. owner q = i) rs = []"
      by simp_all
    have head: "(case fst ?inv of None \<Rightarrow> None | Some d \<Rightarrow> d) =
        (case fst (scheduled_renderText (views (env s) i)) of Inl e \<Rightarrow> None | Inr d \<Rightarrow> d)"
      using True
      by (simp add: viewCallbacks_sel safeInvokeNoArg_onView_result split: sum.splits)
    show ?thesis
      using True a head filter_zip_none [OF rest]
      by (simp add: split_def Let_def)
  next
    case False
    with Cons.prems have rest: "filter (\<lambda>q. owner q = i) rs = [r]"
      by simp
    have same: "views (env (snd ?inv)) i = views (env s) i"
      using False by (simp add: viewCallbacks_sel env_safeInvokeNoArg_onView)
    show ?thesis
      using False Cons.IH [OF rest, of "snd ?inv"] same
      by (simp add: split_def Let_def)
  qed
qed

lemma prepareRenderLoop_view:
  fixes s :: editor
  shows "views (env (prepareRenderLoop viewCallbacks ps s)) i =
     foldl (\<lambda>v q. case snd q of None \<Rightarrow> v | Some d \<Rightarrow> snd (scheduled_prepareRender d v))
       (views (env s) i) (filter (\<lambda>q. owner (fst q) = i) ps)"
  by (induction ps arbitrary: s)
    (simp_all add: viewCallbacks_sel env_safeInvokeNoArg_onView split: option.splits)

lemma renderLoop_view:
  fixes s :: editor
  shows "views (env (renderLoop viewCallbacks ps s)) i =
     foldl (\<lambda>v q. case snd q of None \<Rightarrow> v | Some d \<Rightarrow> snd (scheduled_render d v))
       (views (env s) i) (filter (\<lambda>q. owner (fst q) = i) ps)"
  by (induction ps arbitrary: s)
    (simp_all add: viewCallbacks_sel env_safeInvokeNoArg_onView split: option.splits)

lemma frame_of_view:
  fixes s :: editor
  assumes "filter (\<lambda>q. owner q = i) (coordinatedRenderings s) = [r]"
  shows "views (env (onRenderScheduled viewCallbacks s)) i =
     (let va = snd (scheduled_prepareRenderText (views (env s) i));
          vb = snd (scheduled_renderText va)
      in case fst (scheduled_renderText va) of
           Inr (Some d) \<Rightarrow> snd (scheduled_render d (snd (scheduled_prepareRender d vb)))
         | _ \<Rightarrow> vb)"
proof -
  let ?rs = "coordinatedRenderings s"
  let ?sa = "prepareRenderTextLoop viewCallbacks ?rs (s\<lparr>coordinatedRenderings := []\<rparr>)"
  let ?ds = "fst (renderTextLoop viewCallbacks ?rs ?sa)"
  let ?sb = "snd (renderTextLoop viewCallbacks ?rs ?sa)"
  define va where "va = snd (scheduled_prepareRenderText (views (env s) i))"
  define vb where "vb = snd (scheduled_renderText va)"
  have run: "onRenderScheduled viewCallbacks s =
      renderLoop viewCallbacks (zip ?rs ?ds) (prepareRenderLoop viewCallbacks (zip ?rs ?ds) ?sb)"
    by (simp add: onRenderScheduled_def Let_def split_def)
  have a: "views (env ?sa) i = va"
    by (simp add: prepareRenderTextLoop_view assms va_def)
  have b: "views (env ?sb) i = vb"
    by (simp add: renderTextLoop_view assms a vb_def)
  have d: "filter (\<lambda>q. owner (fst q) = i) (zip ?rs ?ds) =
      [(r, case fst (scheduled_renderText va) of Inl e \<Rightarrow> None | Inr d \<Rightarrow> d)]"
    using renderTextLoop_data [OF assms, of ?sa] by (simp add: a)
  show ?thesis
    unfolding run Let_def va_def [symmetric] vb_def [symmetric]
    by (simp add: renderLoop_view prepareRenderLoop_view d b split: sum.splits option.splits)
qed

lemma isDisposed_prepareRenderParts [simp]:
  "isDisposed (snd (prepareRenderParts ps v)) = isDisposed v"
  by (induction ps arbitrary: v) (simp_all add: Let_def)

lemma isDisposed_renderParts [simp]:
  "isDisposed (snd (renderParts ps v)) = isDisposed v"
  by (induction ps arbitrary: v) (simp_all add: Let_def)

lemma isDisposed_rendering [simp]:
  "isDisposed (snd (rendering_prepareRenderText v)) = isDisposed v"
  "isDisposed (snd (rendering_renderText v)) = isDisposed v"
  "isDisposed (snd (rendering_prepareRender d v)) = isDisposed v"
  "isDisposed (snd (rendering_render d v)) = isDisposed v"
  by (simp_all add: rendering_prepareRenderText_def
      rendering_renderText_def rendering_prepareRender_def rendering_render_def
      viewLines_renderText_def viewLines_onDidRender_def Let_def split_def)

lemma hasData_cong:
  "isConnected v = isConnected w \<Longrightarrow> linesShouldRender v = linesShouldRender w \<Longrightarrow>
   linesRenderTextThrows v = linesRenderTextThrows w \<Longrightarrow> viewParts v = viewParts w \<Longrightarrow>
     hasData v = hasData w"
  by (simp add: hasData_def getViewPartsToRender_def)

lemma frame_phases:
  fixes s :: editor
  assumes one: "filter (\<lambda>q. owner q = i) (coordinatedRenderings s) = [r]"
    and live: "\<not> isDisposed (views (env s) i)"
  shows "phasesEntered (calls (views (env (onRenderScheduled viewCallbacks s)) i)) =
     phasesEntered (calls (views (env s) i))
     @ (if hasData (views (env s) i) then [PrepareRenderText, RenderText, PrepareRender, Render]
        else [PrepareRenderText, RenderText])"
    and "renderAnimationFrame (views (env (onRenderScheduled viewCallbacks s)) i) = None"
proof -
  let ?v = "views (env s) i"
  define va where "va = snd (scheduled_prepareRenderText ?v)"
  define vb where "vb = snd (scheduled_renderText va)"
  have va_eq: "va = (snd (rendering_prepareRenderText ?v))\<lparr>renderAnimationFrame := None\<rparr>"
    using live by (simp add: va_def scheduled_prepareRenderText_def split_def Let_def)
  have va: "\<not> isDisposed va" "renderAnimationFrame va = None"
    "phasesEntered (calls va) = phasesEntered (calls ?v) @ [PrepareRenderText]"
    "hasData va \<longleftrightarrow> hasData ?v"
    using live
    by (simp_all add: va_eq prepareRenderText_effect
        hasData_cong [of "(snd (rendering_prepareRenderText ?v))\<lparr>renderAnimationFrame := None\<rparr>" ?v])
  have vb_eq: "scheduled_renderText va = rendering_renderText va"
    using va(1) by (simp add: scheduled_renderText_def)
  have vb: "\<not> isDisposed vb" "renderAnimationFrame vb = None"
    "phasesEntered (calls vb) = phasesEntered (calls ?v) @ [PrepareRenderText, RenderText]"
    using va by (simp_all add: vb_def vb_eq renderText_effect)
  have data: "(\<exists>d. fst (scheduled_renderText va) = Inr (Some d)) \<longleftrightarrow> hasData ?v"
    using renderText_effect(2) [of va] va(4) by (simp add: vb_eq)
  have last: "phasesEntered (calls (snd (scheduled_render d (snd (scheduled_prepareRender d vb))))) =
                phasesEntered (calls vb) @ [PrepareRender, Render]
              \<and> renderAnimationFrame (snd (scheduled_render d (snd (scheduled_prepareRender d vb)))) = None"
    for d
    using vb(1,2)
    by (simp add: scheduled_render_def scheduled_prepareRender_def render_effect prepareRender_effect)
  note fv = frame_of_view [OF one, unfolded Let_def, folded va_def, folded vb_def]
  show "phasesEntered (calls (views (env (onRenderScheduled viewCallbacks s)) i)) =
     phasesEntered (calls ?v)
     @ (if hasData ?v then [PrepareRenderText, RenderText, PrepareRender, Render]
        else [PrepareRenderText, RenderText])"
  proof (cases "hasData ?v")
    case True
    then obtain d where "fst (scheduled_renderText va) = Inr (Some d)"
      using data by blast
    then show ?thesis
      using True last [of d] vb(3) by (simp add: fv)
  next
    case False
    then have "\<not> (\<exists>d. fst (scheduled_renderText va) = Inr (Some d))"
      using data by blast
    then show ?thesis
      using False vb(3) by (auto simp: fv split: sum.splits option.splits)
  qed
  show "renderAnimationFrame (views (env (onRenderScheduled viewCallbacks s)) i) = None"
    using last vb(2) by (auto simp: fv split: sum.splits option.splits)
qed

lemma frame_data_of_view:
  fixes s :: editor
  assumes one: "filter (\<lambda>q. owner q = i) (coordinatedRenderings s) = [r]"
    and live: "\<not> isDisposed (views (env s) i)"
  shows "\<exists>d. filter (\<lambda>q. owner (fst q) = i)
                (zip (coordinatedRenderings s) (frameDatas viewCallbacks s)) = [(r, d)]
             \<and> (d \<noteq> None \<longleftrightarrow> hasData (views (env s) i))"
proof -
  let ?v = "views (env s) i"
  let ?rs = "coordinatedRenderings s"
  let ?sa = "prepareRenderTextLoop viewCallbacks ?rs (s\<lparr>coordinatedRenderings := []\<rparr>)"
  define va where "va = snd (scheduled_prepareRenderText ?v)"
  have va_eq: "va = (snd (rendering_prepareRenderText ?v))\<lparr>renderAnimationFrame := None\<rparr>"
    using live by (simp add: va_def scheduled_prepareRenderText_def split_def Let_def)
  have va: "\<not> isDisposed va" "hasData va \<longleftrightarrow> hasData ?v"
    using live
    by (simp_all add: va_eq prepareRenderText_effect
        hasData_cong [of "(snd (rendering_prepareRenderText ?v))\<lparr>renderAnimationFrame := None\<rparr>" ?v])
  have a: "views (env ?sa) i = va"
    by (simp add: prepareRenderTextLoop_view one va_def)
  let ?d = "case fst (scheduled_renderText va) of Inl e \<Rightarrow> None | Inr d \<Rightarrow> d"
  have d: "filter (\<lambda>q. owner (fst q) = i) (zip ?rs (frameDatas viewCallbacks s)) = [(r, ?d)]"
    unfolding frameDatas_def using renderTextLoop_data [OF one, of ?sa] by (simp add: a)
  have "(\<exists>d. fst (scheduled_renderText va) = Inr (Some d)) \<longleftrightarrow> hasData ?v"
    using renderText_effect(2) [of va] va by (simp add: scheduled_renderText_def)
  then have "?d \<noteq> None \<longleftrightarrow> hasData ?v"
    by (auto split: sum.splits)
  with d show ?thesis by blast
qed

lemma filter_withData:
  "filter P (withData ps) = withData (filter (\<lambda>q. P (fst q)) ps)"
  by (induction ps) (simp_all add: withData_def)

lemma cancelFrame_startRecording:
  "cancelFrame h (startRecording s) = startRecording (cancelFrame h s)"
  by (simp add: cancelFrame_def startRecording_def withEnv_def)

lemma requestedFrames_startRecording [simp]:
  "requestedFrames (startRecording s) = requestedFrames s"
  by (simp add: startRecording_def)

lemma stopRecording_runner:
  "stopRecording (runner w (recording cbs) (startRecording s)) = runner w cbs s"
  by (simp add: runner_recording stopRecording_onRenderScheduled) (simp add: runner_def)

lemma fireFrame_recording:
  "stopRecording (fireFrame (recording cbs) h (startRecording s)) = fireFrame cbs h s"
  by (cases "map_of (requestedFrames s) h")
    (simp_all add: fireFrame_def cancelFrame_startRecording stopRecording_runner)

lemma fireFrame_run:
  "map_of (requestedFrames s) h = Some w \<Longrightarrow>
     fireFrame cbs h s =
       onRenderScheduled cbs
         (s\<lparr>requestedFrames := filter (\<lambda>p. fst p \<noteq> h) (requestedFrames s),
            animationFrameRunners := filter (\<lambda>p. fst p \<noteq> w) (animationFrameRunners s)\<rparr>)"
  by (simp add: fireFrame_def runner_def cancelFrame_def)

lemma invocations_fireFrame:
  assumes "map_of (requestedFrames s) h = Some w"
  shows "invocations (fireFrame (recording cbs) h (startRecording s)) =
     (let t = s\<lparr>requestedFrames := filter (\<lambda>p. fst p \<noteq> h) (requestedFrames s),
                animationFrameRunners := filter (\<lambda>p. fst p \<noteq> w) (animationFrameRunners s)\<rparr>
      in map (\<lambda>r. (PrepareRenderText, r, None)) (coordinatedRenderings s)
         @ map (\<lambda>r. (RenderText, r, None)) (coordinatedRenderings s)
         @ dataCalls PrepareRender (zip (coordinatedRenderings s) (frameDatas cbs t))
         @ dataCalls Render (zip (coordinatedRenderings s) (frameDatas cbs t)))"
proof -
  let ?t = "s\<lparr>requestedFrames := filter (\<lambda>p. fst p \<noteq> h) (requestedFrames s),
               animationFrameRunners := filter (\<lambda>p. fst p \<noteq> w) (animationFrameRunners s)\<rparr>"
  have "fireFrame (recording cbs) h (startRecording s) =
          onRenderScheduled (recording cbs) (startRecording ?t)"
    using assms
    by (simp add: fireFrame_def cancelFrame_startRecording runner_recording)
      (simp add: cancelFrame_def)
  then show ?thesis
    by (simp add: invocations_frame Let_def)
qed

lemma count_list_distinct:
  "distinct xs \<Longrightarrow> x \<in> set xs \<Longrightarrow> count_list xs x = 1"
  by (induction xs) auto

lemma framesConsistent_env:
  "framesConsistent (s\<lparr>env := e\<rparr>) = framesConsistent s"
  by (simp add: framesConsistent_def)

lemma framesConsistent_view_scheduleRender:
  "framesConsistent s \<Longrightarrow> framesConsistent (snd (view_scheduleRender i s))"
  by (simp add: view_scheduleRender_def Let_def framesConsistent_env framesConsistent_schedule)

lemma runner_of_scheduled:
  assumes "\<not> isDisposed (views (env s) i)" and "renderAnimationFrame (views (env s) i) = None"
  shows "window (newRendering i s)
           \<in> set (map fst (animationFrameRunners (snd (view_scheduleRender i s))))"
  using assms runner_after_scheduleRender [of "window (newRendering i s)"]
  by (simp add: view_scheduleRender_def Let_def scheduleCoordinatedRendering_def)

lemma request_of_runner:
  assumes "framesConsistent s" and "w \<in> set (map fst (animationFrameRunners s))"
  shows "case map_of (animationFrameRunners s) w of
           None \<Rightarrow> False
         | Some h \<Rightarrow> (h, w) \<in> set (requestedFrames s)"
    and "count_list (map snd (requestedFrames s)) w = 1"
proof -
  obtain h where h: "map_of (animationFrameRunners s) w = Some h"
    using assms(2) by (cases "map_of (animationFrameRunners s) w") (auto simp: map_of_eq_None_iff)
  then have "(w, h) \<in> set (animationFrameRunners s)"
    by (rule map_of_SomeD)
  then have "(h, w) \<in> set (requestedFrames s)"
    using assms(1) by (force simp: framesConsistent_def)
  with h show "case map_of (animationFrameRunners s) w of
           None \<Rightarrow> False
         | Some h \<Rightarrow> (h, w) \<in> set (requestedFrames s)"
    by simp
  have eq: "map snd (requestedFrames s) = map fst (animationFrameRunners s)"
    using assms(1) by (simp add: framesConsistent_def comp_def)
  have "distinct (map fst (animationFrameRunners s))"
    using assms(1) by (simp add: framesConsistent_def)
  then show "count_list (map snd (requestedFrames s)) w = 1"
    unfolding eq using assms(2) by (rule count_list_distinct)
qed

subsection \<open>C4: \<open>scheduleRender\<close> while a rendering is pending\<close>

text \<open>
  C4. On a View that is not disposed and has no rendering pending, in a state where
  the frame handles of the coordinator are the callbacks outstanding at the windowing
  primitive and every pending rendering is the one its View holds the handle of: the
  first \<open>scheduleRender\<close> registers one new rendering \<open>r\<close>, and every further call
  while it is pending returns with the state unchanged, so after any number of calls
  exactly one rendering of this View is registered and the View holds its handle. The
  coordinator holds a frame handle for the window of \<open>r\<close>, the callback of that
  handle is outstanding, and it is the only one outstanding for that window.
  Whichever outstanding callback fires next, the closures of \<open>r\<close> are called once in
  each of the first two phases, and once in each of the last two exactly when
  \<open>renderText\<close> returned data; the View enters each of these phases once;
  afterwards nothing is pending and the View holds no handle.
\<close>

theorem scheduleRender_idempotent:
  fixes s :: editor
  assumes "framesConsistent s"
    and "schedulingConsistent s"
    and "\<not> isDisposed (views (env s) i)"
    and "renderAnimationFrame (views (env s) i) = None"
  shows "let v = views (env s) i;
             r = newRendering i s;
             s1 = snd (view_scheduleRender i s);
             sn = ((\<lambda>t. snd (view_scheduleRender i t)) ^^ Suc n) s
         in fst (view_scheduleRender i s) = Inr ()
            \<and> view_scheduleRender i s1 = (Inr (), s1)
            \<and> sn = s1
            \<and> coordinatedRenderings sn = coordinatedRenderings s @ [r]
            \<and> filter (\<lambda>q. owner q = i) (coordinatedRenderings sn) = [r]
            \<and> renderAnimationFrame (views (env sn) i) = Some r
            \<and> (case map_of (animationFrameRunners sn) (window r) of
                  None \<Rightarrow> False
                | Some h \<Rightarrow> (h, window r) \<in> set (requestedFrames sn))
            \<and> count_list (map snd (requestedFrames sn)) (window r) = 1
            \<and> framesConsistent sn
            \<and> schedulingConsistent sn
            \<and> (\<forall>h \<in> set (map fst (requestedFrames sn)).
                  let sf = fireFrame (recording viewCallbacks) h (startRecording sn);
                      vf = views (env (fireFrame viewCallbacks h sn)) i
                  in stopRecording sf = fireFrame viewCallbacks h sn
                     \<and> count_list (visited PrepareRenderText (invocations sf)) r = 1
                     \<and> filter (\<lambda>q. owner q = i) (visited PrepareRenderText (invocations sf)) = [r]
                     \<and> filter (\<lambda>q. owner q = i) (visited RenderText (invocations sf)) = [r]
                     \<and> filter (\<lambda>q. owner q = i) (visited PrepareRender (invocations sf))
                         = (if hasData v then [r] else [])
                     \<and> filter (\<lambda>q. owner q = i) (visited Render (invocations sf))
                         = (if hasData v then [r] else [])
                     \<and> phasesEntered (calls vf) =
                         phasesEntered (calls v)
                         @ (if hasData v then [PrepareRenderText, RenderText, PrepareRender, Render]
                            else [PrepareRenderText, RenderText])
                     \<and> renderAnimationFrame vf = None
                     \<and> coordinatedRenderings (fireFrame viewCallbacks h sn) = [])"
proof -
  let ?v = "views (env s) i"
  let ?r = "newRendering i s"
  let ?s1 = "snd (view_scheduleRender i s)"
  note first = scheduleRender_first [OF assms(3,4)]
  have again: "view_scheduleRender i ?s1 = (Inr (), ?s1)"
    by (rule scheduleRender_pending [where r = ?r]) (use assms in \<open>simp_all add: first(3)\<close>)
  have rep: "((\<lambda>t. snd (view_scheduleRender i t)) ^^ Suc n) s = ?s1"
    using assms(3,4) by (rule scheduleRender_repeated)
  have other: "\<forall>q \<in> set (coordinatedRenderings s). owner q \<noteq> i"
    using no_pending_of_idle_view [OF assms(2,4)] by blast
  have o: "owner ?r = i"
    by (simp add: newRendering_def)
  have none: "filter (\<lambda>q. owner q = i) (coordinatedRenderings s) = []"
    using other by (simp add: filter_empty_conv)
  have one: "filter (\<lambda>q. owner q = i) (coordinatedRenderings ?s1) = [?r]"
    by (simp add: first(2) none o)
  have fresh: "?r \<notin> set (coordinatedRenderings s)"
    using other o by blast
  have count: "count_list (coordinatedRenderings ?s1) ?r = 1"
    using fresh by (simp add: first(2) count_list_0_iff)
  have cons: "schedulingConsistent ?s1"
    using assms(2) by (rule schedulingConsistent_scheduleRender)
  have fc: "framesConsistent ?s1"
    using assms(1) by (rule framesConsistent_view_scheduleRender)
  have held: "renderAnimationFrame (views (env ?s1) i) = Some ?r"
    by (simp add: first(3))
  have v1: "\<not> isDisposed (views (env ?s1) i)" "calls (views (env ?s1) i) = calls ?v"
    "hasData (views (env ?s1) i) \<longleftrightarrow> hasData ?v"
    using assms(3)
    by (simp_all add: first(3) hasData_cong [of "?v\<lparr>renderAnimationFrame := Some ?r\<rparr>" ?v])
  note req = request_of_runner [OF fc runner_of_scheduled [OF assms(3,4)]]
  have fire: "\<forall>h \<in> set (map fst (requestedFrames ?s1)).
        let sf = fireFrame (recording viewCallbacks) h (startRecording ?s1);
            vf = views (env (fireFrame viewCallbacks h ?s1)) i
        in stopRecording sf = fireFrame viewCallbacks h ?s1
        \<and> count_list (visited PrepareRenderText (invocations sf)) ?r = 1
        \<and> filter (\<lambda>q. owner q = i) (visited PrepareRenderText (invocations sf)) = [?r]
        \<and> filter (\<lambda>q. owner q = i) (visited RenderText (invocations sf)) = [?r]
        \<and> filter (\<lambda>q. owner q = i) (visited PrepareRender (invocations sf))
            = (if hasData ?v then [?r] else [])
        \<and> filter (\<lambda>q. owner q = i) (visited Render (invocations sf))
            = (if hasData ?v then [?r] else [])
        \<and> phasesEntered (calls vf) =
            phasesEntered (calls ?v)
            @ (if hasData ?v then [PrepareRenderText, RenderText, PrepareRender, Render]
               else [PrepareRenderText, RenderText])
        \<and> renderAnimationFrame vf = None
        \<and> coordinatedRenderings (fireFrame viewCallbacks h ?s1) = []"
  proof (intro ballI)
    fix h
    assume h: "h \<in> set (map fst (requestedFrames ?s1))"
    define sf where "sf = fireFrame (recording viewCallbacks) h (startRecording ?s1)"
    define vf where "vf = views (env (fireFrame viewCallbacks h ?s1)) i"
    note sf = sf_def and vf = vf_def
    obtain w where w: "map_of (requestedFrames ?s1) h = Some w"
      using h by (cases "map_of (requestedFrames ?s1) h") (auto simp: map_of_eq_None_iff)
    define t where "t = ?s1\<lparr>requestedFrames := filter (\<lambda>p. fst p \<noteq> h) (requestedFrames ?s1),
        animationFrameRunners := filter (\<lambda>p. fst p \<noteq> w) (animationFrameRunners ?s1)\<rparr>"
    have t: "coordinatedRenderings t = coordinatedRenderings ?s1" "env t = env ?s1"
      by (simp_all add: t_def)
    have run: "fireFrame viewCallbacks h ?s1 = onRenderScheduled viewCallbacks t"
      unfolding t_def using w by (rule fireFrame_run)
    have inv: "invocations sf =
        map (\<lambda>r. (PrepareRenderText, r, None)) (coordinatedRenderings ?s1)
        @ map (\<lambda>r. (RenderText, r, None)) (coordinatedRenderings ?s1)
        @ dataCalls PrepareRender (zip (coordinatedRenderings ?s1) (frameDatas viewCallbacks t))
        @ dataCalls Render (zip (coordinatedRenderings ?s1) (frameDatas viewCallbacks t))"
      unfolding sf t_def using invocations_fireFrame [OF w, of viewCallbacks]
      by (simp add: Let_def)
    have one_t: "filter (\<lambda>q. owner q = i) (coordinatedRenderings t) = [?r]"
      and live_t: "\<not> isDisposed (views (env t) i)"
      using one v1(1) by (simp_all add: t)
    obtain d where d: "filter (\<lambda>q. owner (fst q) = i)
                (zip (coordinatedRenderings ?s1) (frameDatas viewCallbacks t)) = [(?r, d)]"
      and dd: "d \<noteq> None \<longleftrightarrow> hasData ?v"
      using frame_data_of_view [OF one_t live_t] by (auto simp: t v1)
    have wd: "filter (\<lambda>q. owner q = i)
                (withData (zip (coordinatedRenderings ?s1) (frameDatas viewCallbacks t)))
              = (if hasData ?v then [?r] else [])"
      using dd by (simp add: filter_withData d) (simp add: withData_def)
    have a: "stopRecording sf = fireFrame viewCallbacks h ?s1"
      unfolding sf by (rule fireFrame_recording)
    have b: "visited PrepareRenderText (invocations sf) = coordinatedRenderings ?s1"
      "visited RenderText (invocations sf) = coordinatedRenderings ?s1"
      "visited PrepareRender (invocations sf)
         = withData (zip (coordinatedRenderings ?s1) (frameDatas viewCallbacks t))"
      "visited Render (invocations sf)
         = withData (zip (coordinatedRenderings ?s1) (frameDatas viewCallbacks t))"
      by (simp_all add: inv visited_map visited_dataCalls)
    have c: "phasesEntered (calls vf) =
            phasesEntered (calls ?v)
            @ (if hasData ?v then [PrepareRenderText, RenderText, PrepareRender, Render]
               else [PrepareRenderText, RenderText])"
      "renderAnimationFrame vf = None"
      unfolding vf run using frame_phases [OF one_t live_t] by (simp_all add: t v1)
    have e: "coordinatedRenderings (fireFrame viewCallbacks h ?s1) = []"
      unfolding run by (rule no_pending_after_frame)
    have f: "count_list (visited PrepareRenderText (invocations sf)) ?r = 1"
      "filter (\<lambda>q. owner q = i) (visited PrepareRenderText (invocations sf)) = [?r]"
      "filter (\<lambda>q. owner q = i) (visited RenderText (invocations sf)) = [?r]"
      "filter (\<lambda>q. owner q = i) (visited PrepareRender (invocations sf))
            = (if hasData ?v then [?r] else [])"
      "filter (\<lambda>q. owner q = i) (visited Render (invocations sf))
            = (if hasData ?v then [?r] else [])"
      unfolding b using count one wd by simp_all
    show "let sf = fireFrame (recording viewCallbacks) h (startRecording ?s1);
            vf = views (env (fireFrame viewCallbacks h ?s1)) i
        in stopRecording sf = fireFrame viewCallbacks h ?s1
        \<and> count_list (visited PrepareRenderText (invocations sf)) ?r = 1
        \<and> filter (\<lambda>q. owner q = i) (visited PrepareRenderText (invocations sf)) = [?r]
        \<and> filter (\<lambda>q. owner q = i) (visited RenderText (invocations sf)) = [?r]
        \<and> filter (\<lambda>q. owner q = i) (visited PrepareRender (invocations sf))
            = (if hasData ?v then [?r] else [])
        \<and> filter (\<lambda>q. owner q = i) (visited Render (invocations sf))
            = (if hasData ?v then [?r] else [])
        \<and> phasesEntered (calls vf) =
            phasesEntered (calls ?v)
            @ (if hasData ?v then [PrepareRenderText, RenderText, PrepareRender, Render]
               else [PrepareRenderText, RenderText])
        \<and> renderAnimationFrame vf = None
        \<and> coordinatedRenderings (fireFrame viewCallbacks h ?s1) = []"
      unfolding Let_def sf_def [symmetric] vf_def [symmetric]
      using a f c e by blast
  qed
  have main: "fst (view_scheduleRender i s) = Inr ()"
    "view_scheduleRender i ?s1 = (Inr (), ?s1)"
    "coordinatedRenderings ?s1 = coordinatedRenderings s @ [?r]"
    using first(1,2) again by simp_all
  show ?thesis
    unfolding Let_def rep
    using main one held req fc cons fire [unfolded Let_def] by blast
qed

lemma exEditor_frames: "framesConsistent exEditor"
  by (simp add: framesConsistent_def exEditor_def initialCoordinator_def)

lemma exView_hasData: "hasData exView"
  by (simp add: hasData_def exView_def exPart_def getViewPartsToRender_def shouldRender_def)

text \<open>
  Three calls on View 0 of the example leave the state of the first call, with one
  callback outstanding; when it fires, the rendering is called once and the View
  enters the four phases once.
\<close>

theorem scheduleRender_idempotent_witness:
  "((\<lambda>t. snd (view_scheduleRender 0 t)) ^^ Suc 2) exEditor = exScheduled
   \<and> view_scheduleRender 0 exScheduled = (Inr (), exScheduled)
   \<and> coordinatedRenderings exScheduled = [exRendering]
   \<and> requestedFrames exScheduled = [(0, 0)]
   \<and> count_list (visited PrepareRenderText
         (invocations (fireFrame (recording viewCallbacks) 0 (startRecording exScheduled))))
         exRendering = 1
   \<and> filter (\<lambda>q. owner q = 0) (visited Render
         (invocations (fireFrame (recording viewCallbacks) 0 (startRecording exScheduled))))
       = [exRendering]
   \<and> phasesEntered (calls (views (env (fireFrame viewCallbacks 0 exScheduled)) 0))
       = [PrepareRenderText, RenderText, PrepareRender, Render]
   \<and> renderAnimationFrame (views (env (fireFrame viewCallbacks 0 exScheduled)) 0) = None
   \<and> coordinatedRenderings (fireFrame viewCallbacks 0 exScheduled) = []"
proof -
  note t = scheduleRender_idempotent [OF exEditor_frames exEditor_idle(1-3), of 2,
      unfolded Let_def exEditor_idle(4), folded exScheduled_def]
  from t have sn: "((\<lambda>t. snd (view_scheduleRender 0 t)) ^^ Suc 2) exEditor = exScheduled"
    by blast
  have rq: "requestedFrames exScheduled = [(0, 0)]"
    by (simp add: exScheduled_eval)
  then have h: "(0::nat) \<in> set (map fst (requestedFrames exScheduled))"
    by simp
  from t have "\<forall>h \<in> set (map fst (requestedFrames exScheduled)).
      count_list (visited PrepareRenderText
         (invocations (fireFrame (recording viewCallbacks) h (startRecording exScheduled))))
         exRendering = 1
      \<and> filter (\<lambda>q. owner q = 0) (visited Render
         (invocations (fireFrame (recording viewCallbacks) h (startRecording exScheduled))))
       = (if hasData (views (env exEditor) 0) then [exRendering] else [])
      \<and> phasesEntered (calls (views (env (fireFrame viewCallbacks h exScheduled)) 0))
       = phasesEntered (calls (views (env exEditor) 0))
         @ (if hasData (views (env exEditor) 0)
            then [PrepareRenderText, RenderText, PrepareRender, Render]
            else [PrepareRenderText, RenderText])
      \<and> renderAnimationFrame (views (env (fireFrame viewCallbacks h exScheduled)) 0) = None
      \<and> coordinatedRenderings (fireFrame viewCallbacks h exScheduled) = []"
    unfolding sn by blast
  from bspec [OF this h] t rq show ?thesis
    unfolding sn by (simp add: exEditor_view exView_hasData)
qed

text \<open>
  The hypothesis on the frame handles is no restriction either: it holds of a new
  coordinator, and every operation keeps it together with \<open>handlesDistinct\<close>.
\<close>

lemma handlesDistinct_scheduleRender:
  assumes "framesConsistent s" and "handlesDistinct s"
  shows "handlesDistinct (coordinator_scheduleRender w s)"
proof -
  have "\<forall>p \<in> set (animationFrameRunners s). snd p < nextHandle s"
    using assms(1) by (fastforce simp: framesConsistent_def list_all_iff)
  then have "nextHandle s \<notin> snd ` set (animationFrameRunners s)"
    by auto
  then show ?thesis
    using assms(2)
    by (simp add: handlesDistinct_def coordinator_scheduleRender_def requestFrame_def)
qed

lemma handlesDistinct_schedule:
  assumes "framesConsistent s" and "handlesDistinct s"
  shows "handlesDistinct (scheduleCoordinatedRendering r s)"
proof -
  let ?s0 = "s\<lparr>coordinatedRenderings := coordinatedRenderings s @ [r],
               trace := trace s @ [ScheduleCall r]\<rparr>"
  have "framesConsistent ?s0" "handlesDistinct ?s0"
    using assms by (auto simp: framesConsistent_def handlesDistinct_def)
  then show ?thesis
    unfolding scheduleCoordinatedRendering_def by (rule handlesDistinct_scheduleRender)
qed

lemma handlesDistinct_dispose:
  "handlesDistinct s \<Longrightarrow> handlesDistinct (disposeRendering r s)"
  by (simp add: handlesDistinct_def disposeRendering_def Let_def)

lemma eq_value_imp_eq_key:
  "distinct (map snd xs) \<Longrightarrow> (a, c) \<in> set xs \<Longrightarrow> (b, c) \<in> set xs \<Longrightarrow> a = b"
  by (induction xs) force+

lemma frames_onRenderScheduled:
  fixes s :: editor
  shows "animationFrameRunners (onRenderScheduled viewCallbacks s) = animationFrameRunners s
       \<and> requestedFrames (onRenderScheduled viewCallbacks s) = requestedFrames s
       \<and> nextHandle (onRenderScheduled viewCallbacks s) = nextHandle s"
  by (rule onRenderScheduled_preserves
        [where I = "\<lambda>t. animationFrameRunners t = animationFrameRunners s
                       \<and> requestedFrames t = requestedFrames s \<and> nextHandle t = nextHandle s"])
    (simp_all add: viewCallbacks_sel safeInvokeNoArg_onView logCall_def setView_def
      split: prod.splits sum.splits)

lemma framesConsistent_onRenderScheduled:
  fixes s :: editor
  shows "framesConsistent (onRenderScheduled viewCallbacks s) = framesConsistent s"
    and "handlesDistinct (onRenderScheduled viewCallbacks s) = handlesDistinct s"
  by (simp_all add: framesConsistent_def handlesDistinct_def frames_onRenderScheduled)

lemma framesConsistent_fireFrame:
  fixes s :: editor
  assumes fc: "framesConsistent s" and hd: "handlesDistinct s"
  shows "framesConsistent (fireFrame viewCallbacks h s) \<and> handlesDistinct (fireFrame viewCallbacks h s)"
proof (cases "map_of (requestedFrames s) h")
  case None
  then show ?thesis using assms by (simp add: fireFrame_def)
next
  case (Some w)
  let ?t = "s\<lparr>requestedFrames := filter (\<lambda>p. fst p \<noteq> h) (requestedFrames s),
               animationFrameRunners := filter (\<lambda>p. fst p \<noteq> w) (animationFrameRunners s)\<rparr>"
  have run: "fireFrame viewCallbacks h s = onRenderScheduled viewCallbacks ?t"
    using Some by (rule fireFrame_run)
  have "(h, w) \<in> set (requestedFrames s)"
    using Some by (rule map_of_SomeD)
  then have wh: "(w, h) \<in> set (animationFrameRunners s)"
    using fc by (auto simp: framesConsistent_def)
  have dw: "distinct (map fst (animationFrameRunners s))"
    and dh: "distinct (map snd (animationFrameRunners s))"
    using fc hd by (simp_all add: framesConsistent_def handlesDistinct_def)
  have same: "fst p \<noteq> w \<longleftrightarrow> snd p \<noteq> h" if "p \<in> set (animationFrameRunners s)" for p
  proof (cases p)
    case (Pair a b)
    with that have m: "(a, b) \<in> set (animationFrameRunners s)"
      by simp
    have "a = w \<Longrightarrow> b = h"
      using eq_key_imp_eq_value [OF dw _ wh, of b] m by simp
    moreover have "b = h \<Longrightarrow> a = w"
      using eq_value_imp_eq_key [OF dh _ wh, of a] m by simp
    ultimately show ?thesis
      using Pair by auto
  qed
  have "filter (\<lambda>p. fst p \<noteq> h) (map (\<lambda>p. (snd p, fst p)) (animationFrameRunners s)) =
        map (\<lambda>p. (snd p, fst p)) (filter (\<lambda>p. fst p \<noteq> w) (animationFrameRunners s))"
    by (simp add: filter_map comp_def same cong: filter_cong)
  then have "framesConsistent ?t"
    using fc by (fastforce simp: framesConsistent_def distinct_map_filter list_all_iff)
  moreover have "handlesDistinct ?t"
    using hd by (simp add: handlesDistinct_def distinct_map_filter)
  ultimately show ?thesis
    unfolding run framesConsistent_onRenderScheduled by simp
qed

lemma frames_initial:
  "framesConsistent (initialCoordinator e)" "handlesDistinct (initialCoordinator e)"
  by (simp_all add: framesConsistent_def handlesDistinct_def initialCoordinator_def)

lemma frames_setView [simp]:
  "framesConsistent (setView i v s) = framesConsistent s"
  "handlesDistinct (setView i v s) = handlesDistinct s"
  by (simp_all add: framesConsistent_def handlesDistinct_def)

lemma handlesDistinct_env:
  "handlesDistinct (s\<lparr>env := e\<rparr>) = handlesDistinct s"
  by (simp add: handlesDistinct_def)

lemma handlesDistinct_view_scheduleRender:
  "framesConsistent s \<Longrightarrow> handlesDistinct s \<Longrightarrow> handlesDistinct (snd (view_scheduleRender i s))"
  by (simp add: view_scheduleRender_def Let_def handlesDistinct_env handlesDistinct_schedule)

lemma frames_view_dispose:
  assumes "framesConsistent s" and "handlesDistinct s"
  shows "framesConsistent (view_dispose i s)" and "handlesDistinct (view_dispose i s)"
  using assms
  by (simp_all add: view_dispose_def Let_def framesConsistent_dispose handlesDistinct_dispose
      split: option.splits)

lemma frames_flush:
  "framesConsistent (flushAccumulatedAndRenderNow i s) = framesConsistent s"
  "handlesDistinct (flushAccumulatedAndRenderNow i s) = handlesDistinct s"
proof -
  have "nextHandle (flushAccumulatedAndRenderNow i s) = nextHandle s"
    by (simp add: flushAccumulatedAndRenderNow_def Let_def split_def safeInvokeNoArg_onView
        setView_def split: option.splits prod.splits sum.splits)
  then show "framesConsistent (flushAccumulatedAndRenderNow i s) = framesConsistent s"
    "handlesDistinct (flushAccumulatedAndRenderNow i s) = handlesDistinct s"
    by (simp_all add: framesConsistent_def handlesDistinct_def flush_coordinator)
qed

lemma frames_view_render:
  assumes "framesConsistent s" and "handlesDistinct s"
  shows "framesConsistent (snd (view_render now everything i s))"
    and "handlesDistinct (snd (view_render now everything i s))"
  using assms
  by (simp_all add: view_render_def Let_def frames_flush framesConsistent_view_scheduleRender
      handlesDistinct_view_scheduleRender)

subsection \<open>C6: \<open>render(now, everything)\<close>\<close>











lemma length_viewParts_prepareRenderParts [simp]:
  "length (viewParts (snd (prepareRenderParts ps w))) = length (viewParts w)"
  by (induction ps arbitrary: w) (simp_all add: Let_def)

lemma length_viewParts_renderParts [simp]:
  "length (viewParts (snd (renderParts ps w))) = length (viewParts w)"
  by (induction ps arbitrary: w) (simp_all add: Let_def)

lemma length_viewParts_rendering [simp]:
  "length (viewParts (snd (rendering_prepareRenderText w))) = length (viewParts w)"
  "length (viewParts (snd (rendering_renderText w))) = length (viewParts w)"
  "length (viewParts (snd (rendering_prepareRender d w))) = length (viewParts w)"
  "length (viewParts (snd (rendering_render d w))) = length (viewParts w)"
  by (simp_all add: rendering_prepareRenderText_def rendering_renderText_def
      rendering_prepareRender_def rendering_render_def viewLines_renderText_def
      viewLines_onDidRender_def Let_def split_def)








subsection \<open>Rendering now when every part is dirty and none throws\<close>





lemma partCalls_simps [simp]:
  "partCalls [] = []"
  "partCalls (Entered p # cs) = partCalls cs"
  "partCalls (PartPrepareRender q # cs) = PartPrepareRender q # partCalls cs"
  "partCalls (PartRender q # cs) = PartRender q # partCalls cs"
  "partCalls (PartOnDidRender q # cs) = PartOnDidRender q # partCalls cs"
  "partCalls (PartForceShouldRender q # cs) = partCalls cs"
  "partCalls (LinesForceShouldRender # cs) = partCalls cs"
  "partCalls (LinesRenderText # cs) = partCalls cs"
  "partCalls (LinesOnDidRender # cs) = partCalls cs"
  "partCalls (ContentWidgetsOnBeforeRender # cs) = partCalls cs"
  "partCalls (ComputeGlyphMarginLanes # cs) = partCalls cs"
  "partCalls (InputLatencyOnRenderStart # cs) = partCalls cs"
  by (simp_all add: partCalls_def)

lemma partCalls_map [simp]:
  "partCalls (map PartPrepareRender ps) = map PartPrepareRender ps"
  "partCalls (map PartForceShouldRender ps) = []"
  "partCalls (concat (map (\<lambda>q. [PartRender q, PartOnDidRender q]) ps))
     = concat (map (\<lambda>q. [PartRender q, PartOnDidRender q]) ps)"
  by (induction ps) simp_all







lemma phasesEntered_forced [simp]:
  "phasesEntered (map PartForceShouldRender ps) = []"
  by (induction ps) simp_all






end
